theory Spec2Isabelle
  imports Complex_Main "HOL-Library.Monad_Syntax"
begin

section \<open>Strings of the platform\<close>

text \<open>
  A JavaScript string is modelled as a \<^typ>\<open>string\<close>: each \<^typ>\<open>char\<close> stands for one
  code unit in the range 0..255. Every literal that the program compares against is ASCII.
\<close>

definition isDigit :: "char \<Rightarrow> bool" where
  \<comment> \<open>the class \<open>\d\<close> of a regular expression without the \<open>u\<close> flag\<close>
  "isDigit c \<longleftrightarrow> c \<in> set ''0123456789''"

definition toLowerASCII :: "char \<Rightarrow> char" where
  "toLowerASCII c =
     (case map_of (zip ''ABCDEFGHIJKLMNOPQRSTUVWXYZ'' ''abcdefghijklmnopqrstuvwxyz'') c of
        Some l \<Rightarrow> l
      | None \<Rightarrow> c)"

text \<open>
  \<open>imatch p s\<close> matches the literal \<open>p\<close> at the start of \<open>s\<close> under the \<open>i\<close> flag and
  returns what follows it. All literals of the program are ASCII, for which the flag
  identifies exactly a letter and its other case.
\<close>

fun imatch :: "string \<Rightarrow> string \<Rightarrow> string option" where
  "imatch [] s = Some s"
| "imatch (p # ps) [] = None"
| "imatch (p # ps) (c # cs) =
     (if toLowerASCII p = toLowerASCII c then imatch ps cs else None)"

section \<open>URL normalizer (services/dbService.ts)\<close>

text \<open>
  The pattern
  \<^verbatim>\<open>/^https?:\/\/(x\.com|twitter\.com)\/([^\/]+)\/status\/(\d+)/i\<close>
  applied by \<open>url.match\<close>. The result is the pair of groups 2 and 3. No step of the
  pattern can succeed in two ways (after \<open>http\<close> an \<open>s\<close> cannot start \<open>://\<close>, the two
  hosts differ in their first letter, group 2 stops at the first \<open>/\<close>), so the greedy
  match is the only one; group 3 is the longest run of digits.
\<close>

definition imatchOptional :: "string \<Rightarrow> string \<Rightarrow> string" where
  \<comment> \<open>a literal followed by \<open>?\<close>\<close>
  "imatchOptional p s = (case imatch p s of Some r \<Rightarrow> r | None \<Rightarrow> s)"

definition imatchEither :: "string \<Rightarrow> string \<Rightarrow> string \<Rightarrow> string option" where
  \<comment> \<open>the alternative \<open>(p|q)\<close> of two literals\<close>
  "imatchEither p q s = (case imatch p s of Some r \<Rightarrow> Some r | None \<Rightarrow> imatch q s)"

definition twitterMatch :: "string \<Rightarrow> (string \<times> string) option" where
  "twitterMatch url = do {
     r0 \<leftarrow> imatch ''http'' url;
     let r1 = imatchOptional ''s'' r0;
     r2 \<leftarrow> imatch ''://'' r1;
     r3 \<leftarrow> imatchEither ''x.com'' ''twitter.com'' r2;
     r4 \<leftarrow> imatch ''/'' r3;
     let username = takeWhile (\<lambda>c. c \<noteq> CHR ''/'') r4;
     let r5 = dropWhile (\<lambda>c. c \<noteq> CHR ''/'') r4;
     r6 \<leftarrow> (if username = [] then None else imatch ''/status/'' r5);
     let statusId = takeWhile isDigit r6;
     if statusId = [] then None else Some (username, statusId)
   }"

text \<open>
  The object built by \<open>new URL(url)\<close>, as far as \<open>normalizeUrl\<close> reads it: the getters
  \<open>origin\<close> and \<open>pathname\<close>, the name-value list behind \<open>searchParams\<close>, and the two
  parts of the serialisation that surround the query (everything up to the end of the
  path, and the fragment).
\<close>

record URL =
  origin :: string
  pathname :: string
  searchParams :: "(string \<times> string) list"
  hrefToPath :: string
  fragment :: "string option"

text \<open>The application/x-www-form-urlencoded serialiser behind \<open>searchParams.toString()\<close>.\<close>

definition hexDigitUpper :: "nat \<Rightarrow> char" where
  "hexDigitUpper n = ''0123456789ABCDEF'' ! (n mod 16)"

definition percentByte :: "nat \<Rightarrow> string" where
  "percentByte b = [CHR ''%'', hexDigitUpper (b div 16), hexDigitUpper b]"

definition urlencodedChar :: "char \<Rightarrow> string" where
  "urlencodedChar c =
     (if c \<in> set ''abcdefghijklmnopqrstuvwxyzABCDEFGHIJKLMNOPQRSTUVWXYZ0123456789*-._'' then [c]
      else if c = CHR '' '' then ''+''
      else if (of_char c :: nat) < 128 then percentByte (of_char c)
      else percentByte (192 + of_char c div 64) @ percentByte (128 + of_char c mod 64))"

fun joinWith :: "string \<Rightarrow> string list \<Rightarrow> string" where
  "joinWith sep [] = []"
| "joinWith sep [x] = x"
| "joinWith sep (x # y # ys) = x @ sep @ joinWith sep (y # ys)"

definition urlencoded :: "(string \<times> string) list \<Rightarrow> string" where
  "urlencoded ps =
     joinWith ''&'' (map (\<lambda>(k, v). concat (map urlencodedChar k) @ ''='' @ concat (map urlencodedChar v)) ps)"

definition searchParams_delete :: "string \<Rightarrow> URL \<Rightarrow> URL" where
  "searchParams_delete param urlObj =
     urlObj\<lparr>searchParams := filter (\<lambda>(k, v). k \<noteq> param) (searchParams urlObj)\<rparr>"

definition searchParams_toString :: "URL \<Rightarrow> string" where
  "searchParams_toString urlObj = urlencoded (searchParams urlObj)"

definition URL_toString :: "URL \<Rightarrow> string" where
  "URL_toString urlObj =
     hrefToPath urlObj
     @ (if searchParams_toString urlObj = [] then [] else ''?'' @ searchParams_toString urlObj)
     @ (case fragment urlObj of None \<Rightarrow> [] | Some f \<Rightarrow> ''#'' @ f)"

definition trackingParams :: "string list" where
  "trackingParams = [''t'', ''s'', ''utm_source'', ''utm_medium'', ''utm_campaign'', ''ref'']"

text \<open>
  \<open>normalizeUrl\<close>. The constructor \<open>new URL\<close> is the platform's; it is the parameter
  \<open>newURL\<close>, which answers \<open>None\<close> where the constructor throws. The argument is typed
  \<open>string\<close>, so of the first guard only the empty string remains.
\<close>

definition normalizeUrl :: "(string \<Rightarrow> URL option) \<Rightarrow> string \<Rightarrow> string" where
  "normalizeUrl newURL url =
     (if url = [] then url
      else case twitterMatch url of
        Some (username, statusId) \<Rightarrow> ''https://x.com/'' @ username @ ''/status/'' @ statusId
      | None \<Rightarrow>
         (case newURL url of
            None \<Rightarrow> url
          | Some urlObj0 \<Rightarrow>
              let urlObj = foldl (\<lambda>u param. searchParams_delete param u) urlObj0 trackingParams
              in if searchParams_toString urlObj = [] then origin urlObj @ pathname urlObj
                 else URL_toString urlObj))"

definition normalizeUrls :: "(string \<Rightarrow> URL option) \<Rightarrow> string list \<Rightarrow> string list" where
  "normalizeUrls newURL urls = filter (\<lambda>url. url \<noteq> []) (map (normalizeUrl newURL) urls)"


text \<open>
  A property of the URL constructor on which a second normalization depends: given the
  text that the generic branch of \<open>normalizeUrl\<close> made from the URL of \<open>url\<close>, the
  constructor rejects it or reads that URL back. For the text \<open>origin + pathname\<close> that
  is a URL with this origin, this path and no query; for the serialisation of the URL it
  is the URL itself.
\<close>

definition stripTracking :: "URL \<Rightarrow> URL" where
  "stripTracking urlObj0 = foldl (\<lambda>u param. searchParams_delete param u) urlObj0 trackingParams"

definition readsBack :: "(string \<Rightarrow> URL option) \<Rightarrow> string \<Rightarrow> bool" where
  "readsBack newURL url \<longleftrightarrow>
     (case newURL url of
        None \<Rightarrow> True
      | Some urlObj0 \<Rightarrow>
          let urlObj = stripTracking urlObj0
          in if searchParams_toString urlObj = [] then
               (case newURL (origin urlObj @ pathname urlObj) of
                  None \<Rightarrow> True
                | Some v \<Rightarrow> origin v = origin urlObj \<and> pathname v = pathname urlObj
                            \<and> searchParams v = [])
             else
               (case newURL (URL_toString urlObj) of
                  None \<Rightarrow> True
                | Some v \<Rightarrow> v = urlObj))"
subsection \<open>A fragment of the platform's URL constructor\<close>

text \<open>
  \<open>newURL_http\<close> is the constructor \<open>new URL\<close> on the inputs
  \<^verbatim>\<open>http(s)://host[:port][/path][?query][#fragment]\<close>
  whose host is made of lower-case letters and dots, whose port is one of 80, 443, 3000
  and 8080, and whose path, query and fragment hold only letters, digits and the few
  marks listed below (so that nothing is percent-encoded or decoded and no path segment
  is a dot segment). Leading and trailing spaces and control characters are dropped and
  the default port of the scheme is omitted, as the URL standard prescribes. On an input
  outside this fragment it answers \<open>None\<close>, although the real constructor accepts many
  of them: it serves to evaluate concrete inputs only, and every statement below that
  ranges over all strings is made for an arbitrary constructor.
\<close>

definition stripC0Space :: "string \<Rightarrow> string" where
  "stripC0Space s =
     rev (dropWhile (\<lambda>c. (of_char c :: nat) \<le> 32) (rev (dropWhile (\<lambda>c. (of_char c :: nat) \<le> 32) s)))"

fun splitOn :: "char \<Rightarrow> string \<Rightarrow> string list" where
  "splitOn sep [] = [[]]"
| "splitOn sep (c # cs) =
     (if c = sep then [] # splitOn sep cs
      else case splitOn sep cs of [] \<Rightarrow> [[c]] | p # ps \<Rightarrow> (c # p) # ps)"

definition parseQuery :: "string \<Rightarrow> (string \<times> string) list" where
  "parseQuery q =
     map (\<lambda>piece. (takeWhile (\<lambda>c. c \<noteq> CHR ''='') piece,
                    drop 1 (dropWhile (\<lambda>c. c \<noteq> CHR ''='') piece)))
       (filter (\<lambda>piece. piece \<noteq> []) (splitOn CHR ''&'' q))"

definition lettersDigits :: string where
  "lettersDigits = ''abcdefghijklmnopqrstuvwxyzABCDEFGHIJKLMNOPQRSTUVWXYZ0123456789''"

definition httpURL :: "string \<Rightarrow> string \<Rightarrow> string \<Rightarrow> URL option" where
  \<comment> \<open>the URL of the given scheme whose text after \<open>://\<close> is \<open>r\<close>\<close>
  "httpURL scheme defaultPort r =
     (let authority = takeWhile (\<lambda>c. c \<notin> set ''/?#'') r;
          r1 = dropWhile (\<lambda>c. c \<notin> set ''/?#'') r;
          host = takeWhile (\<lambda>c. c \<noteq> CHR '':'') authority;
          port = drop 1 (dropWhile (\<lambda>c. c \<noteq> CHR '':'') authority);
          path = takeWhile (\<lambda>c. c \<notin> set ''?#'') r1;
          r2 = dropWhile (\<lambda>c. c \<notin> set ''?#'') r1;
          query = (if take 1 r2 = ''?'' then takeWhile (\<lambda>c. c \<noteq> CHR ''#'') (drop 1 r2)
                   else []);
          r3 = dropWhile (\<lambda>c. c \<noteq> CHR ''#'') r2;
          hostport = host @ (if port = [] \<or> port = defaultPort then [] else '':'' @ port);
          path' = (if path = [] then ''/'' else path)
      in if host \<noteq> [] \<and> set host \<subseteq> set ''abcdefghijklmnopqrstuvwxyz.''
            \<and> (port = [] \<and> CHR '':'' \<notin> set authority
                 \<or> port \<in> {''80'', ''443'', ''3000'', ''8080''})
            \<and> set path \<subseteq> set (lettersDigits @ ''/_-'')
            \<and> set query \<subseteq> set (lettersDigits @ ''=&_-.*'')
            \<and> set r3 \<subseteq> set (lettersDigits @ ''#_-'')
         then Some \<lparr>origin = scheme @ ''://'' @ hostport,
                    pathname = path',
                    searchParams = parseQuery query,
                    hrefToPath = scheme @ ''://'' @ hostport @ path',
                    fragment = (if r3 = [] then None else Some (drop 1 r3))\<rparr>
         else None)"

definition newURL_http :: "string \<Rightarrow> URL option" where
  "newURL_http input =
     (let url = stripC0Space input
      in if take 8 url = ''https://'' then httpURL ''https'' ''443'' (drop 8 url)
         else if take 7 url = ''http://'' then httpURL ''http'' ''80'' (drop 7 url)
         else None)"

section \<open>JSON text (the platform's \<open>JSON.stringify\<close> and \<open>JSON.parse\<close>)\<close>

text \<open>
  The columns \<open>etiquetas\<close> and \<open>urls\<close> hold JSON text. \<open>JSON_stringify\<close> is
  \<open>JSON.stringify\<close> on an array of strings, the only values the program serialises.
  \<open>JSON_parse\<close> reads the grammar of ECMA-404; a number is kept as its literal text.

  A string that \<open>JSON.parse\<close> decodes is a list of code units, each a number below 65536:
  the text of a cell is made of code units below 256 (\<^typ>\<open>char\<close>), but an escape
  \<open>\uXXXX\<close> in it names any of them. \<open>units\<close> is a string of the program as such a
  list, and \<open>narrow\<close> goes back where it can.
\<close>

datatype json =
    JNull
  | JBool bool
  | JNumber string
  | JString "nat list"
  | JArray "json list"
  | JObject "(nat list \<times> json) list"

definition units :: "string \<Rightarrow> nat list" where
  "units s = map of_char s"

definition narrow :: "nat list \<Rightarrow> string option" where
  "narrow w = (if list_all (\<lambda>n. n < 256) w then Some (map char_of w) else None)"

definition dquote :: char where "dquote = CHR 0x22"
definition backslash :: char where "backslash = CHR 0x5C"

definition hexDigitLower :: "nat \<Rightarrow> char" where
  "hexDigitLower n = ''0123456789abcdef'' ! (n mod 16)"

definition quoteChar :: "char \<Rightarrow> string" where
  "quoteChar c =
     (if c = dquote then [backslash, dquote]
      else if c = backslash then [backslash, backslash]
      else if c = CHR 0x08 then [backslash, CHR ''b'']
      else if c = CHR 0x0C then [backslash, CHR ''f'']
      else if c = CHR 0x0A then [backslash, CHR ''n'']
      else if c = CHR 0x0D then [backslash, CHR ''r'']
      else if c = CHR 0x09 then [backslash, CHR ''t'']
      else if (of_char c :: nat) < 32
        then [backslash, CHR ''u'', CHR ''0'', CHR ''0'',
              hexDigitLower (of_char c div 16), hexDigitLower (of_char c)]
      else [c])"

definition quoteJSONString :: "string \<Rightarrow> string" where
  "quoteJSONString s = dquote # concat (map quoteChar s) @ [dquote]"

definition JSON_stringify :: "string list \<Rightarrow> string" where
  "JSON_stringify xs = ''['' @ joinWith '','' (map quoteJSONString xs) @ '']''"

definition isJSONSpace :: "char \<Rightarrow> bool" where
  "isJSONSpace c \<longleftrightarrow> c \<in> {CHR '' '', CHR 0x09, CHR 0x0A, CHR 0x0D}"

definition skipWS :: "string \<Rightarrow> string" where
  "skipWS s = dropWhile isJSONSpace s"

definition hexValue :: "char \<Rightarrow> nat option" where
  "hexValue c =
     map_of (zip ''0123456789abcdefABCDEF''
                 [0, 1, 2, 3, 4, 5, 6, 7, 8, 9, 10, 11, 12, 13, 14, 15, 10, 11, 12, 13, 14, 15]) c"

definition hex4 :: "string \<Rightarrow> nat option" where
  "hex4 hs =
     (case map hexValue hs of
        [Some a, Some b, Some c, Some d] \<Rightarrow> Some (((a * 16 + b) * 16 + c) * 16 + d)
      | _ \<Rightarrow> None)"

definition unescape :: "char \<Rightarrow> char option" where
  "unescape e =
     map_of [(dquote, dquote), (backslash, backslash), (CHR ''/'', CHR ''/''),
             (CHR ''b'', CHR 0x08), (CHR ''f'', CHR 0x0C), (CHR ''n'', CHR 0x0A),
             (CHR ''r'', CHR 0x0D), (CHR ''t'', CHR 0x09)] e"

definition consTo :: "'a \<Rightarrow> ('a list \<times> 'b) option \<Rightarrow> ('a list \<times> 'b) option" where
  "consTo x r = map_option (\<lambda>(xs, rest). (x # xs, rest)) r"

text \<open>The characters of a string after its opening quote, up to the closing quote.\<close>

fun parseChars :: "string \<Rightarrow> (nat list \<times> string) option" where
  "parseChars [] = None"
| "parseChars (c # cs) =
     (if c = dquote then Some ([], cs)
      else if c = backslash then
        (case cs of
           [] \<Rightarrow> None
         | e # es \<Rightarrow>
             if e = CHR ''u'' then
               (case hex4 (take 4 es) of
                  None \<Rightarrow> None
                | Some n \<Rightarrow> consTo n (parseChars (drop 4 es)))
             else (case unescape e of
                     None \<Rightarrow> None
                   | Some x \<Rightarrow> consTo (of_char x) (parseChars es)))
      else if (of_char c :: nat) < 32 then None
      else consTo (of_char c) (parseChars cs))"

text \<open>
  A number: \<^verbatim>\<open>-? (0 | [1-9][0-9]*) (. [0-9]+)? ([eE] [+-]? [0-9]+)?\<close>.
\<close>

definition parseNumber :: "string \<Rightarrow> (string \<times> string) option" where
  "parseNumber s =
     (let sign = (if take 1 s = ''-'' then ''-'' else []);
          s1 = drop (length sign) s;
          int = (if take 1 s1 = ''0'' then ''0'' else takeWhile isDigit s1);
          s2 = drop (length int) s1;
          frac = (if take 1 s2 = ''.'' then ''.'' @ takeWhile isDigit (drop 1 s2) else []);
          s3 = drop (length frac) s2;
          e = (if take 1 s3 \<in> {''e'', ''E''} then take 1 s3 else []);
          esign = (if e \<noteq> [] \<and> take 1 (drop 1 s3) \<in> {''+'', ''-''} then take 1 (drop 1 s3) else []);
          edigits = (if e \<noteq> [] then takeWhile isDigit (drop (1 + length esign) s3) else []);
          exp = e @ esign @ edigits
      in if int = [] \<or> frac = ''.'' \<or> (e \<noteq> [] \<and> edigits = []) then None
         else Some (sign @ int @ frac @ exp, drop (length exp) s3))"

text \<open>
  Values, by recursive descent. The first argument bounds the number of nested calls; it
  is set from the length of the text by \<open>JSON_parse\<close>.
\<close>

fun parseValue :: "nat \<Rightarrow> string \<Rightarrow> (json \<times> string) option"
  and parseElements :: "nat \<Rightarrow> string \<Rightarrow> (json list \<times> string) option"
  and parseMembers :: "nat \<Rightarrow> string \<Rightarrow> ((nat list \<times> json) list \<times> string) option"
where
  "parseValue 0 s = None"
| "parseValue (Suc n) s =
     (if take 1 s = [dquote] then map_option (\<lambda>(x, r). (JString x, r)) (parseChars (drop 1 s))
      else if take 1 s = ''['' then
        (if take 1 (skipWS (drop 1 s)) = '']'' then Some (JArray [], drop 1 (skipWS (drop 1 s)))
         else map_option (\<lambda>(xs, r). (JArray xs, r)) (parseElements n (skipWS (drop 1 s))))
      else if take 1 s = ''{'' then
        (if take 1 (skipWS (drop 1 s)) = ''}'' then Some (JObject [], drop 1 (skipWS (drop 1 s)))
         else map_option (\<lambda>(ms, r). (JObject ms, r)) (parseMembers n (skipWS (drop 1 s))))
      else if take 4 s = ''null'' then Some (JNull, drop 4 s)
      else if take 4 s = ''true'' then Some (JBool True, drop 4 s)
      else if take 5 s = ''false'' then Some (JBool False, drop 5 s)
      else map_option (\<lambda>(x, r). (JNumber x, r)) (parseNumber s))"
| "parseElements 0 s = None"
| "parseElements (Suc n) s =
     (case parseValue n s of
        None \<Rightarrow> None
      | Some (v, r) \<Rightarrow>
          if take 1 (skipWS r) = '','' then consTo v (parseElements n (skipWS (drop 1 (skipWS r))))
          else if take 1 (skipWS r) = '']'' then Some ([v], drop 1 (skipWS r))
          else None)"
| "parseMembers 0 s = None"
| "parseMembers (Suc n) s =
     (if take 1 s \<noteq> [dquote] then None
      else case parseChars (drop 1 s) of
        None \<Rightarrow> None
      | Some (k, r0) \<Rightarrow>
          if take 1 (skipWS r0) \<noteq> '':'' then None
          else case parseValue n (skipWS (drop 1 (skipWS r0))) of
            None \<Rightarrow> None
          | Some (v, r) \<Rightarrow>
              if take 1 (skipWS r) = '','' then consTo (k, v) (parseMembers n (skipWS (drop 1 (skipWS r))))
              else if take 1 (skipWS r) = ''}'' then Some ([(k, v)], drop 1 (skipWS r))
              else None)"

text \<open>\<open>JSON.parse\<close>: \<open>Inl\<close> is the \<open>SyntaxError\<close> it throws.\<close>

definition JSON_parse :: "string \<Rightarrow> string + json" where
  "JSON_parse text =
     (case parseValue (2 * length text + 2) (skipWS text) of
        Some (v, r) \<Rightarrow> if skipWS r = [] then Inr v else Inl ''SyntaxError''
      | None \<Rightarrow> Inl ''SyntaxError'')"

section \<open>Enrichment client (services/geminiService.ts)\<close>

text \<open>\<open>ParsedEmailRaw\<close> of types.ts, and the object that both entry points return.\<close>

record ParsedEmailRaw =
  fileName :: string
  rawDate :: string
  rawSubject :: string
  bodyText :: string

record AnalysisResult =
  tematica :: string
  etiquetas :: "string list"
  contenido_resumido :: string
  urls :: "string list"
  fecha_normalizada :: string

text \<open>
  What the \<open>catch\<close> clause reads of the value thrown inside \<open>try\<close>: \<open>error.status\<close> and
  \<open>error.code\<close> (\<open>None\<close> unless they are numbers) and \<open>error.message\<close>.
\<close>

record ApiError =
  err_status :: "int option"
  err_code :: "int option"
  err_message :: "string option"

primrec includesStr :: "string \<Rightarrow> string \<Rightarrow> bool" where
  \<comment> \<open>\<open>String.prototype.includes\<close>\<close>
  "includesStr [] sub \<longleftrightarrow> sub = []"
| "includesStr (c # cs) sub \<longleftrightarrow> take (length sub) (c # cs) = sub \<or> includesStr cs sub"

definition isTransient :: "ApiError \<Rightarrow> bool" where
  "isTransient e \<longleftrightarrow>
     err_status e = Some 429 \<or> err_code e = Some 429 \<or>
     (case err_message e of
        None \<Rightarrow> False
      | Some m \<Rightarrow> m \<noteq> [] \<and> (includesStr m ''429'' \<or> includesStr m ''quota'' \<or> includesStr m ''RESOURCE_EXHAUSTED''))"

definition maxAttempts :: nat where
  "maxAttempts = 5"

text \<open>The two reserved topics. The second is \<open>Error en Analisis\<close> with an acute accent on its second \<open>a\<close> (U+00E1).\<close>

definition topicQuota :: string where
  "topicQuota = ''Error Cuota API''"

definition topicFailure :: string where
  "topicFailure = ''Error en An'' @ [CHR 0xE1] @ ''lisis''"

text \<open>
  The loop \<open>while (attempt <= maxAttempts)\<close>, which both entry points contain word for
  word but for the three objects they return without a response: \<open>quota\<close>, \<open>failure\<close>
  (built from the error) and \<open>unknown\<close> (after the loop). \<open>tryBlock k\<close> is the outcome of the
  \<open>try\<close> block in attempt \<open>k\<close>: the normalized response that it returns, or the value that
  it throws (by the service, by \<open>JSON.parse\<close>, or by its own \<open>throw\<close>), all of which the
  \<open>catch\<close> clause receives. The delay is in milliseconds. Beside the value returned, the
  model reports the number of attempts made and the delays waited, in order.
\<close>

record retried =
  result :: AnalysisResult
  attempts :: nat
  waits :: "rat list"

function retryLoop ::
  "(nat \<Rightarrow> ApiError + AnalysisResult) \<Rightarrow> AnalysisResult \<Rightarrow> (ApiError \<Rightarrow> AnalysisResult) \<Rightarrow> AnalysisResult
    \<Rightarrow> nat \<Rightarrow> rat \<Rightarrow> rat list \<Rightarrow> retried" where
  "retryLoop tryBlock quota failure unknown attempt delay waited =
     (if attempt \<le> maxAttempts then
        (case tryBlock attempt of
           Inr parsedResponse \<Rightarrow> \<lparr>result = parsedResponse, attempts = attempt, waits = waited\<rparr>
         | Inl e \<Rightarrow>
             if isTransient e then
               (if attempt < maxAttempts
                then retryLoop tryBlock quota failure unknown (attempt + 1) (delay * (3 / 2)) (waited @ [delay])
                else \<lparr>result = quota, attempts = attempt, waits = waited\<rparr>)
             else
               (if attempt = maxAttempts
                then \<lparr>result = failure e, attempts = attempt, waits = waited\<rparr>
                else retryLoop tryBlock quota failure unknown (attempt + 1) (delay * (3 / 2)) (waited @ [delay])))
      else \<lparr>result = unknown, attempts = attempt - 1, waits = waited\<rparr>)"
  by pat_completeness auto
termination
  by (relation "measure (\<lambda>(tryBlock, quota, failure, unknown, attempt, delay, waited). maxAttempts + 1 - attempt)")
    (auto simp: maxAttempts_def)

declare retryLoop.simps [simp del]

text \<open>\<open>initGemini\<close>: throws when \<open>process.env.API_KEY\<close> is missing or empty.\<close>

definition initGemini :: "string option \<Rightarrow> string + unit" where
  "initGemini apiKey =
     (if apiKey = None \<or> apiKey = Some []
      then Inl ''API Key is missing. Ensure process.env.API_KEY is defined in your environment.''
      else Inr ())"

definition analyzeEmailContent ::
  "string option \<Rightarrow> (nat \<Rightarrow> ApiError + AnalysisResult) \<Rightarrow> ParsedEmailRaw \<Rightarrow> string + retried" where
  "analyzeEmailContent apiKey tryBlock emailData =
     (case initGemini apiKey of
        Inl e \<Rightarrow> Inl e
      | Inr _ \<Rightarrow>
          Inr (retryLoop tryBlock
            \<lparr>tematica = topicQuota, etiquetas = [''Error'', ''Quota''],
             contenido_resumido =
               ''Error: Se ha excedido la cuota de la API Key definida en tu fichero .env (429 Resource Exhausted). Espera unos minutos o revisa tu plan de facturaci''
               @ [CHR 0xF3] @ ''n en Google AI Studio.'',
             urls = [], fecha_normalizada = rawDate emailData\<rparr>
            (\<lambda>e. \<lparr>tematica = topicFailure, etiquetas = [''Error''],
                   contenido_resumido =
                     ''Error analizando contenido despu'' @ [CHR 0xE9] @ ''s de '' @ ''5'' @ '' intentos: ''
                     @ (case err_message e of
                          None \<Rightarrow> ''Error desconocido''
                        | Some m \<Rightarrow> if m = [] then ''Error desconocido'' else m)
                     @ ''. Contenido parcial: '' @ take 200 (bodyText emailData),
                   urls = [], fecha_normalizada = rawDate emailData\<rparr>)
            \<lparr>tematica = ''Error'', etiquetas = [''Error''],
             contenido_resumido = ''Error desconocido tras reintentos.'',
             urls = [], fecha_normalizada = rawDate emailData\<rparr>
            1 10000 []))"

text \<open>
  \<open>analyzeUrlContent\<close>. What precedes the loop (the optional fetch of the page or of the
  transcript, inside its own \<open>try\<close>) decides the prompt only and does not throw; \<open>now\<close>
  is \<open>new Date().toISOString().slice(0, 19).replace('T', ' ')\<close>.
\<close>

definition analyzeUrlContent ::
  "string option \<Rightarrow> string \<Rightarrow> (nat \<Rightarrow> ApiError + AnalysisResult) \<Rightarrow> string \<Rightarrow> string + retried" where
  "analyzeUrlContent apiKey now tryBlock url =
     (case initGemini apiKey of
        Inl e \<Rightarrow> Inl e
      | Inr _ \<Rightarrow>
          Inr (retryLoop tryBlock
            \<lparr>tematica = topicQuota, etiquetas = [''Error'', ''Quota''],
             contenido_resumido =
               ''Error: Se ha excedido la cuota de la API Key definida en tu fichero .env (429 Resource Exhausted). Espera unos minutos o revisa tu plan de facturaci''
               @ [CHR 0xF3] @ ''n en Google AI Studio.'',
             urls = [url], fecha_normalizada = now\<rparr>
            (\<lambda>e. \<lparr>tematica = topicFailure, etiquetas = [''Error''],
                   contenido_resumido =
                     ''<p>Error: Error analizando URL despu'' @ [CHR 0xE9] @ ''s de '' @ ''5'' @ '' intentos: ''
                     @ (case err_message e of
                          None \<Rightarrow> ''Error desconocido''
                        | Some m \<Rightarrow> if m = [] then ''Error desconocido'' else m)
                     @ ''</p><p>URL: <a href='' @ [dquote] @ url @ [dquote] @ ''>'' @ url @ ''</a></p>'',
                   urls = [url], fecha_normalizada = now\<rparr>)
            \<lparr>tematica = ''Error'', etiquetas = [''Error''],
             contenido_resumido =
               ''<p>Error desconocido tras reintentos.</p><p>URL: <a href='' @ [dquote] @ url @ [dquote] @ ''>'' @ url @ ''</a></p>'',
             urls = [url], fecha_normalizada = now\<rparr>
            1 10000 []))"

section \<open>Record store (services/dbService.ts)\<close>

text \<open>
  \<open>AnalyzedEmail\<close> of types.ts. TypeScript does not check what \<open>getAllEmails\<close> builds
  from the table, where a text cell may be \<open>NULL\<close> and a JSON cell may hold any value; the
  record is therefore polymorphic in the type of its text fields and of its two array
  fields. The pipeline builds \<open>(string, string list) AnalyzedEmail\<close>.
\<close>

datatype EmailStatus = pending | processing | completed | error

record ('s, 'a) AnalyzedEmail =
  id' :: string
  fileName :: 's
  fechaEnvio :: 's
  tematica :: 's
  etiquetas :: 'a
  contenido :: 's
  urls :: 'a
  status :: EmailStatus
  errorMessage :: "string option"

text \<open>
  The table \<open>emails\<close>: \<open>id INTEGER PRIMARY KEY AUTOINCREMENT\<close> and six \<open>TEXT\<close> columns,
  each of which may be \<open>NULL\<close>. The rows are kept in the order of their insertion;
  \<open>lastRowid\<close> is the largest id ever handed out (the engine's \<open>sqlite_sequence\<close>).
\<close>

record row =
  col_id :: nat
  col_fileName :: "string option"
  col_fechaEnvio :: "string option"
  col_tematica :: "string option"
  col_etiquetas :: "string option"
  col_contenido :: "string option"
  col_urls :: "string option"

record database =
  rows :: "row list"
  lastRowid :: nat

text \<open>
  The module state: \<open>dbInstance\<close>, taken as already opened by \<open>loadSqlJs\<close>, and the blob
  stored in IndexedDB under the key \<open>main_db\<close> (\<open>None\<close> when the key is absent).
\<close>

record store =
  dbInstance :: database
  main_db :: "database option"

definition initTable :: database where
  \<comment> \<open>\<open>new SQL.Database()\<close> followed by \<open>initTable\<close>\<close>
  "initTable = \<lparr>rows = [], lastRowid = 0\<rparr>"

definition nextRowid :: "database \<Rightarrow> nat" where
  "nextRowid d = Suc (fold max (map col_id (rows d)) (lastRowid d))"

definition insertRow :: "string \<Rightarrow> string \<Rightarrow> string \<Rightarrow> string \<Rightarrow> string \<Rightarrow> string \<Rightarrow> database \<Rightarrow> database" where
  \<comment> \<open>\<open>INSERT INTO emails (fileName, fechaEnvio, tematica, etiquetas, contenido, urls) VALUES (?, ?, ?, ?, ?, ?)\<close>\<close>
  "insertRow v1 v2 v3 v4 v5 v6 d =
     \<lparr>rows = rows d @ [\<lparr>col_id = nextRowid d, col_fileName = Some v1,
                           col_fechaEnvio = Some v2, col_tematica = Some v3,
                           col_etiquetas = Some v4, col_contenido = Some v5,
                           col_urls = Some v6\<rparr>],
      lastRowid = nextRowid d\<rparr>"

text \<open>\<open>x || d\<close> on a text cell or a string: \<open>NULL\<close> and the empty string are falsy.\<close>

definition orElse :: "string option \<Rightarrow> string \<Rightarrow> string" where
  "orElse cell d = (case cell of None \<Rightarrow> d | Some t \<Rightarrow> if t = [] then d else t)"

definition digitChar :: "nat \<Rightarrow> char" where
  "digitChar n = ''0123456789'' ! (n mod 10)"

function decimal :: "nat \<Rightarrow> string" where
  \<comment> \<open>\<open>toString()\<close> of a non-negative integer\<close>
  "decimal n = (if n < 10 then [digitChar n] else decimal (n div 10) @ [digitChar n])"
  by pat_completeness auto
termination
  by (relation "measure (\<lambda>n. n)") auto

declare decimal.simps [simp del]

subsection \<open>getExistingFileNames\<close>

definition getExistingFileNames :: "store \<Rightarrow> string set" where
  "getExistingFileNames st =
     foldl (\<lambda>fileNames r. case col_fileName r of
                               None \<Rightarrow> fileNames
                             | Some n \<Rightarrow> if n = [] then fileNames else insert n fileNames)
       {} (rows (dbInstance st))"

subsection \<open>getAllEmails\<close>

text \<open>
  \<open>SELECT * FROM emails ORDER BY id DESC\<close>, then one object per row. The two calls of
  \<open>JSON.parse\<close> are not guarded: what they throw leaves \<open>getAllEmails\<close> (\<open>Inl\<close>).
\<close>

definition orderByIdDesc :: "row list \<Rightarrow> row list" where
  "orderByIdDesc rs = rev (sort_key col_id rs)"

definition entryOfRow :: "row \<Rightarrow> string + (string option, json) AnalyzedEmail" where
  "entryOfRow r =
     (case JSON_parse (orElse (col_etiquetas r) ''[]'') of
        Inl e \<Rightarrow> Inl e
      | Inr tags \<Rightarrow>
         (case JSON_parse (orElse (col_urls r) ''[]'') of
            Inl e \<Rightarrow> Inl e
          | Inr us \<Rightarrow>
              Inr \<lparr>id' = decimal (col_id r), fileName = col_fileName r,
                   fechaEnvio = col_fechaEnvio r, tematica = col_tematica r,
                   etiquetas = tags, contenido = col_contenido r, urls = us,
                   status = completed, errorMessage = None\<rparr>))"

fun mapRows :: "row list \<Rightarrow> string + (string option, json) AnalyzedEmail list" where
  "mapRows [] = Inr []"
| "mapRows (r # rs) =
     (case entryOfRow r of
        Inl e \<Rightarrow> Inl e
      | Inr x \<Rightarrow> (case mapRows rs of Inl e \<Rightarrow> Inl e | Inr xs \<Rightarrow> Inr (x # xs)))"

definition getAllEmails :: "store \<Rightarrow> string + (string option, json) AnalyzedEmail list" where
  "getAllEmails st = mapRows (orderByIdDesc (rows (dbInstance st)))"

subsection \<open>saveToDb\<close>

text \<open>
  The three sets against which duplicates are detected. The sets of the source hold
  whatever the stored arrays hold, but they are only ever asked for strings of the
  program, whose code units are below 256: the model keeps those members. A stored string
  with a code unit above 255 is not one of them, but what \<open>normalizeUrl\<close> makes of it can
  be (the URL constructor percent-encodes). \<open>normalizeUrl\<close> on such a string is the
  parameter \<open>normalizeWide\<close>, which answers \<open>None\<close> when the result has such a code unit
  too. A stored value that is not a string is returned by \<open>normalizeUrl\<close> as it is, and
  is no string either.
\<close>

record dedup =
  existingFileNames :: "string set"
  existingUrlSets :: "string set"
  existingNormalizedUrlSets :: "string set"

definition jsonStrings :: "json list \<Rightarrow> nat list list" where
  "jsonStrings vs = concat (map (\<lambda>v. case v of JString w \<Rightarrow> [w] | _ \<Rightarrow> []) vs)"

definition storedUrls :: "string option \<Rightarrow> nat list list" where
  \<comment> \<open>\<open>JSON.parse(row[0] || "[]")\<close> inside \<open>try\<close>, then \<open>Array.isArray\<close>\<close>
  "storedUrls cell =
     (case JSON_parse (orElse cell ''[]'') of
        Inr (JArray vs) \<Rightarrow> jsonStrings vs
      | _ \<Rightarrow> [])"

definition addUrls :: "(string \<Rightarrow> URL option) \<Rightarrow> string list \<Rightarrow> dedup \<Rightarrow> dedup" where
  \<comment> \<open>\<open>urls.forEach(u => { existingUrlSets.add(u); existingNormalizedUrlSets.add(normalizeUrl(u)) })\<close>\<close>
  "addUrls newURL us ix =
     foldl (\<lambda>ix u. ix\<lparr>existingUrlSets := insert u (existingUrlSets ix),
                        existingNormalizedUrlSets :=
                          insert (normalizeUrl newURL u) (existingNormalizedUrlSets ix)\<rparr>)
       ix us"

definition addStored ::
  "(string \<Rightarrow> URL option) \<Rightarrow> (nat list \<Rightarrow> string option) \<Rightarrow> nat list list \<Rightarrow> dedup \<Rightarrow> dedup" where
  \<comment> \<open>the same \<open>forEach\<close>, on the strings of a stored array\<close>
  "addStored newURL normalizeWide ws ix =
     foldl (\<lambda>ix w. case narrow w of
                       Some u \<Rightarrow> addUrls newURL [u] ix
                     | None \<Rightarrow>
                        (case normalizeWide w of
                           Some n \<Rightarrow> ix\<lparr>existingNormalizedUrlSets := insert n (existingNormalizedUrlSets ix)\<rparr>
                         | None \<Rightarrow> ix))
       ix ws"

definition existingIndex ::
  "(string \<Rightarrow> URL option) \<Rightarrow> (nat list \<Rightarrow> string option) \<Rightarrow> store \<Rightarrow> dedup" where
  "existingIndex newURL normalizeWide st =
     foldl (\<lambda>ix r. addStored newURL normalizeWide (storedUrls (col_urls r)) ix)
       \<lparr>existingFileNames = getExistingFileNames st, existingUrlSets = {},
        existingNormalizedUrlSets = {}\<rparr>
       (rows (dbInstance st))"

text \<open>
  The loop over \<open>email.urls\<close>, which stops at the first index that hits.
  \<open>normalizedUrls\<close> has lost the empty results, so that its index \<open>i\<close> need not belong
  to \<open>email.urls[i]\<close>, and beyond its length \<open>normalizedUrls[i]\<close> is \<open>undefined\<close>, which
  no set holds.
\<close>

definition urlHit :: "(string \<Rightarrow> URL option) \<Rightarrow> dedup \<Rightarrow> string list \<Rightarrow> nat option" where
  "urlHit newURL ix us =
     (let normalizedUrls = normalizeUrls newURL us
      in find (\<lambda>i. us ! i \<in> existingUrlSets ix
                   \<or> (i < length normalizedUrls
                       \<and> normalizedUrls ! i \<in> existingNormalizedUrlSets ix))
           [0..<length us])"

text \<open>
  \<open>duplicateReason\<close> after the two tests (\<open>None\<close> is the empty string it starts as):
  \<open>isDuplicate\<close> is true exactly when it has been set.
\<close>

definition duplicateReason ::
  "(string \<Rightarrow> URL option) \<Rightarrow> dedup \<Rightarrow> (string, string list) AnalyzedEmail \<Rightarrow> string option" where
  "duplicateReason newURL ix email =
     (case urlHit newURL ix (urls email) of
        Some i \<Rightarrow>
          Some (''URL ya existe en BD: ''
                @ (if i < length (normalizeUrls newURL (urls email))
                   then normalizeUrls newURL (urls email) ! i else ''undefined''))
      | None \<Rightarrow>
          if fileName email \<noteq> [] \<and> fileName email \<in> existingFileNames ix
          then Some (''fileName ya existe en BD: '' @ fileName email)
          else None)"

record saveLoop =
  index :: dedup
  db :: database
  addedCount :: nat
  errors :: "string list"

text \<open>
  One turn of \<open>emails.forEach\<close>. The values are typed, and \<open>stmt.run\<close> binds six strings
  to an insertion that no constraint can refuse, so nothing in the turn throws: of the
  failures that the turn records, the missing \<open>fileName\<close> is the one that remains.
\<close>

definition saveEmail :: "(string \<Rightarrow> URL option) \<Rightarrow> nat \<Rightarrow> (string, string list) AnalyzedEmail \<Rightarrow> saveLoop \<Rightarrow> saveLoop" where
  "saveEmail newURL i email l =
     (if fileName email = [] then
        l\<lparr>errors := errors l @ [''Email '' @ decimal (i + 1) @ '': fileName faltante'']\<rparr>
      else
        let isDuplicate = (duplicateReason newURL (index l) email \<noteq> None)
        in if \<not> isDuplicate then
             l\<lparr>index := addUrls newURL (urls email)
                           ((index l)\<lparr>existingFileNames := insert (fileName email) (existingFileNames (index l))\<rparr>),
               db := insertRow (fileName email) (fechaEnvio email)
                       (orElse (Some (tematica email)) ''Sin clasificar'')
                       (JSON_stringify (etiquetas email)) (contenido email)
                       (JSON_stringify (urls email)) (db l),
               addedCount := addedCount l + 1\<rparr>
           else l)"

fun forEachEmail :: "(string \<Rightarrow> URL option) \<Rightarrow> nat \<Rightarrow> (string, string list) AnalyzedEmail list \<Rightarrow> saveLoop \<Rightarrow> saveLoop" where
  "forEachEmail newURL i [] l = l"
| "forEachEmail newURL i (email # emails) l = forEachEmail newURL (i + 1) emails (saveEmail newURL i email l)"

text \<open>
  \<open>saveToDb\<close>. \<open>putError\<close> is what \<open>saveDBToStorage\<close> rejects with, if it does. The result
  pairs the message of the \<open>Error\<close> thrown, if any, with the module state. Between
  \<open>BEGIN\<close> and \<open>COMMIT\<close> nothing throws and nothing rolls back, so the table after the loop
  is the committed table.
\<close>

definition saveToDb ::
  "(string \<Rightarrow> URL option) \<Rightarrow> (nat list \<Rightarrow> string option) \<Rightarrow> string option
    \<Rightarrow> (string, string list) AnalyzedEmail list \<Rightarrow> store \<Rightarrow> string option \<times> store" where
  "saveToDb newURL normalizeWide putError emails st =
     (if emails = [] then (None, st)
      else
        let l = forEachEmail newURL 0 emails
                  \<lparr>index = existingIndex newURL normalizeWide st, db = dbInstance st, addedCount = 0, errors = []\<rparr>;
            st1 = st\<lparr>dbInstance := db l\<rparr>;
            thrown = (if errors l \<noteq> []
                      then Some (''Errores guardando algunos emails: '' @ joinWith ''; '' (errors l))
                      else None)
        in if addedCount l > 0 then
             (case putError of
                Some msg \<Rightarrow> (Some (''Error guardando en almacenamiento: '' @ msg), st1)
              | None \<Rightarrow> (thrown, st1\<lparr>main_db := Some (db l)\<rparr>))
           else (thrown, st1))"

text \<open>
  The entries of \<open>errors\<close> for the records of a call that have no \<open>fileName\<close>, the first
  record of the call being at position \<open>i\<close>.
\<close>

definition invalidMessages :: "nat \<Rightarrow> (string, string list) AnalyzedEmail list \<Rightarrow> string list" where
  "invalidMessages i emails =
     map (\<lambda>(k, e). ''Email '' @ decimal (k + 1) @ '': fileName faltante'')
       (filter (\<lambda>(k, e). fileName e = []) (enumerate i emails))"

subsection \<open>The decision, read from the table\<close>

text \<open>
  What the three sets hold when they are filled from a table; how a record is judged
  against a table (one of its URLs is among the stored URLs, or the normalization of one
  of its URLs is not empty and is among the normalizations of the stored URLs, or its
  \<open>fileName\<close> is among the stored ones); the row that a record becomes; and the table that a list of records
  leaves when each record is judged against the table left by those before it, and
  appended if it has a \<open>fileName\<close> and is no duplicate.
\<close>

definition fileNamesOf :: "database \<Rightarrow> string set" where
  "fileNamesOf d = set (filter (\<lambda>n. n \<noteq> []) (List.map_filter col_fileName (rows d)))"

definition storedStrings :: "database \<Rightarrow> nat list list" where
  "storedStrings d = concat (map (\<lambda>r. storedUrls (col_urls r)) (rows d))"

definition rawUrlsOf :: "database \<Rightarrow> string set" where
  "rawUrlsOf d = set (List.map_filter narrow (storedStrings d))"

definition normalizedUrlsOf ::
  "(string \<Rightarrow> URL option) \<Rightarrow> (nat list \<Rightarrow> string option) \<Rightarrow> database \<Rightarrow> string set" where
  "normalizedUrlsOf newURL normalizeWide d =
     set (List.map_filter
            (\<lambda>w. case narrow w of Some u \<Rightarrow> Some (normalizeUrl newURL u) | None \<Rightarrow> normalizeWide w)
            (storedStrings d))"

definition indexOf :: "(string \<Rightarrow> URL option) \<Rightarrow> (nat list \<Rightarrow> string option) \<Rightarrow> database \<Rightarrow> dedup" where
  "indexOf newURL normalizeWide d =
     \<lparr>existingFileNames = fileNamesOf d, existingUrlSets = rawUrlsOf d,
      existingNormalizedUrlSets = normalizedUrlsOf newURL normalizeWide d\<rparr>"

definition isUrlDuplicateOf ::
  "(string \<Rightarrow> URL option) \<Rightarrow> (nat list \<Rightarrow> string option) \<Rightarrow> database \<Rightarrow> string list \<Rightarrow> bool" where
  "isUrlDuplicateOf newURL normalizeWide d us \<longleftrightarrow>
     (\<exists>u\<in>set us. u \<in> rawUrlsOf d)
     \<or> (\<exists>u\<in>set us. normalizeUrl newURL u \<noteq> []
                    \<and> normalizeUrl newURL u \<in> normalizedUrlsOf newURL normalizeWide d)"

definition isDuplicateOf ::
  "(string \<Rightarrow> URL option) \<Rightarrow> (nat list \<Rightarrow> string option) \<Rightarrow> database
    \<Rightarrow> (string, string list) AnalyzedEmail \<Rightarrow> bool" where
  "isDuplicateOf newURL normalizeWide d email \<longleftrightarrow>
     isUrlDuplicateOf newURL normalizeWide d (urls email) \<or> fileName email \<in> fileNamesOf d"

definition emailRow :: "nat \<Rightarrow> (string, string list) AnalyzedEmail \<Rightarrow> row" where
  "emailRow k email =
     \<lparr>col_id = k, col_fileName = Some (fileName email), col_fechaEnvio = Some (fechaEnvio email),
      col_tematica = Some (if tematica email = [] then ''Sin clasificar'' else tematica email),
      col_etiquetas = Some (JSON_stringify (etiquetas email)),
      col_contenido = Some (contenido email),
      col_urls = Some (JSON_stringify (urls email))\<rparr>"

definition appendEmail :: "(string, string list) AnalyzedEmail \<Rightarrow> database \<Rightarrow> database" where
  "appendEmail email d = \<lparr>rows = rows d @ [emailRow (nextRowid d) email], lastRowid = nextRowid d\<rparr>"

fun appendAll ::
  "(string \<Rightarrow> URL option) \<Rightarrow> (nat list \<Rightarrow> string option) \<Rightarrow> (string, string list) AnalyzedEmail list
    \<Rightarrow> database \<Rightarrow> database" where
  "appendAll newURL normalizeWide [] d = d"
| "appendAll newURL normalizeWide (email # emails) d =
     appendAll newURL normalizeWide emails
       (if fileName email = [] \<or> isDuplicateOf newURL normalizeWide d email then d
        else appendEmail email d)"

section \<open>Ingestion pipeline (App.tsx, processFiles)\<close>

datatype ProcessingStatus = IDLE | PARSING | ANALYZING | GENERATING_DB | COMPLETED | ERROR

record File =
  name :: string
  content :: string

record Progress =
  current :: nat
  total' :: nat
  currentFile :: "string option"

text \<open>
  The points at which \<open>processFiles\<close> is suspended while it handles item \<open>i\<close>: each of
  the fifteen one-second sleeps of the pacing pause, and the awaited calls.
\<close>

datatype Await = Sleeping nat | Parsing | Analyzing | Saving | Loading

text \<open>
  What \<open>processFiles\<close> does to its collaborators, in order: the file of item \<open>i\<close> handed
  to \<open>parseEmlFile\<close>, its text handed to \<open>analyzeEmailContent\<close>, a call of \<open>saveToDb\<close>
  made while item \<open>i\<close> is current, and a call of \<open>setStatus\<close>. The list of these events is
  kept beside the state only to state properties; nothing reads it.
\<close>

datatype event =
    Extract nat
  | Enrich nat
  | Persist nat "(string, string list) AnalyzedEmail list"
  | SetStatus ProcessingStatus

text \<open>
  The state of the component (\<open>useState\<close>), the \<open>current\<close> of the ref
  \<open>isProcessingCancelled\<close>, and the state of the store module.
\<close>

record App =
  files :: "File list"
  processedEmails :: "(string option, json) AnalyzedEmail list"
  statusState :: ProcessingStatus
  progress :: Progress
  errorMsg :: "string option"
  isApiKeyValid :: bool
  isProcessingCancelled :: bool
  storeState :: store
  trace :: "event list"

text \<open>
  What the pipeline does not decide: the platform's URL constructor (and what
  \<open>normalizeUrl\<close> makes of a stored string outside the strings of the model), the API key, the
  extractor (\<open>Inl\<close> is the message of what it throws), the outcome of each attempt of the
  service for each item, the identifiers and the clock, the moments at which the user
  presses the stop button, and the failures of the write to IndexedDB.
\<close>

record Env =
  env_newURL :: "string \<Rightarrow> URL option"
  env_normalizeWide :: "nat list \<Rightarrow> string option"
  env_apiKey :: "string option"
  env_parseEmlFile :: "nat \<Rightarrow> File \<Rightarrow> string + ParsedEmailRaw"
  env_tryBlock :: "nat \<Rightarrow> nat \<Rightarrow> ApiError + AnalysisResult"
  env_uuidv4 :: "nat \<Rightarrow> string"
  env_now :: "nat \<Rightarrow> string"
  env_stop :: "nat \<Rightarrow> Await \<Rightarrow> bool"
  env_putError :: "nat \<Rightarrow> string option"

definition setStatus :: "ProcessingStatus \<Rightarrow> App \<Rightarrow> App" where
  "setStatus v s = s\<lparr>statusState := v, trace := trace s @ [SetStatus v]\<rparr>"

definition logEvent :: "event \<Rightarrow> App \<Rightarrow> App" where
  "logEvent ev s = s\<lparr>trace := trace s @ [ev]\<rparr>"

definition stopProcessing :: "App \<Rightarrow> App" where
  "stopProcessing s =
     s\<lparr>isProcessingCancelled := True, errorMsg := Some ''Procesamiento cancelado por el usuario''\<rparr>"

definition awaiting :: "Env \<Rightarrow> nat \<Rightarrow> Await \<Rightarrow> App \<Rightarrow> App" where
  \<comment> \<open>a suspension, during which the user may press the stop button\<close>
  "awaiting env i a s = (if env_stop env i a then stopProcessing s else s)"

definition trim :: "string \<Rightarrow> string" where
  \<comment> \<open>\<open>String.prototype.trim\<close> on code units below 256\<close>
  "trim s =
     (let ws = (\<lambda>c. c \<in> {CHR 0x09, CHR 0x0A, CHR 0x0B, CHR 0x0C, CHR 0x0D, CHR 0x20, CHR 0xA0})
      in rev (dropWhile ws (rev (dropWhile ws s))))"

definition orStr :: "string \<Rightarrow> string \<Rightarrow> string" where
  \<comment> \<open>\<open>x || d\<close> on strings\<close>
  "orStr x d = (if x = [] then d else x)"

subsection \<open>The outcome of an item\<close>

datatype Outcome =
    ParseThrew string
  | AnalysisThrew string
  | Analysed ParsedEmailRaw AnalysisResult

definition itemOutcome :: "Env \<Rightarrow> nat \<Rightarrow> File \<Rightarrow> Outcome" where
  "itemOutcome env i file =
     (case env_parseEmlFile env i file of
        Inl m \<Rightarrow> ParseThrew m
      | Inr parsedRaw \<Rightarrow>
         (case analyzeEmailContent (env_apiKey env) (env_tryBlock env i) parsedRaw of
            Inl m \<Rightarrow> AnalysisThrew m
          | Inr r \<Rightarrow> Analysed parsedRaw (result r)))"

text \<open>The object built in step 3 (lines 267 to 303), and the one built in the \<open>catch\<close> clause.\<close>

definition analyzedEmailOf ::
  "Env \<Rightarrow> nat \<Rightarrow> File \<Rightarrow> ParsedEmailRaw \<Rightarrow> AnalysisResult \<Rightarrow> (string, string list) AnalyzedEmail" where
  "analyzedEmailOf env i file parsedRaw analysis =
     \<lparr>id' = env_uuidv4 env i,
      fileName = name file,
      fechaEnvio = (if fecha_normalizada analysis \<noteq> [] then trim (fecha_normalizada analysis)
                    else orStr (rawDate parsedRaw) (env_now env i)),
      tematica = (if AnalysisResult.tematica analysis \<noteq> [] then trim (AnalysisResult.tematica analysis)
                  else ''Sin clasificar''),
      etiquetas = filter (\<lambda>tag. trim tag \<noteq> []) (AnalysisResult.etiquetas analysis),
      contenido = (if contenido_resumido analysis \<noteq> [] then trim (contenido_resumido analysis)
                   else if trim (bodyText parsedRaw) \<noteq> []
                     then ''<p>'' @ trim (take 500 (bodyText parsedRaw)) @ ''...</p>''
                   else ''<p>No se pudo obtener el contenido del correo.</p>''),
      urls = filter (\<lambda>u. trim u \<noteq> []) (AnalysisResult.urls analysis),
      status = completed,
      errorMessage = None\<rparr>"

definition errorEmailOf :: "Env \<Rightarrow> nat \<Rightarrow> File \<Rightarrow> string \<Rightarrow> (string, string list) AnalyzedEmail" where
  "errorEmailOf env i file message =
     \<lparr>id' = env_uuidv4 env i,
      fileName = name file,
      fechaEnvio = env_now env i,
      tematica = topicFailure,
      etiquetas = [''Error''],
      contenido = ''Error procesando archivo: '' @ orStr message ''No se pudo analizar el contenido''
                  @ ''. Revisa la consola (F12) para m'' @ [CHR 0xE1] @ ''s detalles.'',
      urls = [],
      status = error,
      errorMessage = Some (orStr message ''Error desconocido'')\<rparr>"

subsection \<open>Saving and reloading\<close>

text \<open>
  \<open>await saveToDb(records); const allEmails = await getAllEmails(); setProcessedEmails(allEmails)\<close>.
  The first component of the result is the message of what the sequence throws, if it does.
\<close>

definition saveAndReload ::
  "Env \<Rightarrow> nat \<Rightarrow> (string, string list) AnalyzedEmail list \<Rightarrow> App \<Rightarrow> string option \<times> App" where
  "saveAndReload env i records s =
     (let saved = saveToDb (env_newURL env) (env_normalizeWide env) (env_putError env i) records (storeState s);
          s1 = awaiting env i Saving ((logEvent (Persist i records) s)\<lparr>storeState := snd saved\<rparr>)
      in case fst saved of
           Some m \<Rightarrow> (Some m, s1)
         | None \<Rightarrow>
            (case getAllEmails (storeState s1) of
               Inl m \<Rightarrow> (Some m, awaiting env i Loading s1)
             | Inr allEmails \<Rightarrow> (None, (awaiting env i Loading s1)\<lparr>processedEmails := allEmails\<rparr>)))"

subsection \<open>One item\<close>

text \<open>
  The pacing pause before an item other than the first: fifteen times, leave if the flag
  is set, else sleep one second. Once the flag is set no sleep follows.
\<close>

definition pacingPause :: "Env \<Rightarrow> nat \<Rightarrow> App \<Rightarrow> App" where
  "pacingPause env i s =
     foldl (\<lambda>s delayCount. if isProcessingCancelled s then s else awaiting env i (Sleeping delayCount) s)
       s [0..<15]"

text \<open>How the body of the loop leaves an item: on to the next one, or out of the loop.\<close>

datatype 'a step = Continue 'a | Break 'a

type_synonym batch = "(string, string list) AnalyzedEmail list \<times> string list \<times> App"

text \<open>The \<open>catch (fileError)\<close> clause and the \<open>setProgress\<close> that ends the body.\<close>

definition catchFileError :: "Env \<Rightarrow> File list \<Rightarrow> nat \<Rightarrow> string \<Rightarrow> batch \<Rightarrow> batch" where
  "catchFileError env fs i message b =
     (case b of (results, processingErrors, s) \<Rightarrow>
        let file = fs ! i;
            processingErrors = processingErrors
              @ [''Error procesando '' @ name file @ '': '' @ orStr message ''Error desconocido''];
            errorEmail = errorEmailOf env i file message;
            s1 = snd (saveAndReload env i [errorEmail] s);
            s2 = s1\<lparr>errorMsg := Some (''Error en '' @ name file @ ''. ''
                     @ decimal (length processingErrors)
                     @ '' error(es) hasta ahora. Revisa la consola (F12) para detalles.'')\<rparr>
        in (results @ [errorEmail], processingErrors,
            s2\<lparr>progress := \<lparr>current = i + 1, total' = length fs,
                             currentFile = (if i + 1 < length fs then Some (name (fs ! (i + 1))) else None)\<rparr>\<rparr>))"

text \<open>
  The body of the loop from the \<open>try\<close> of line 206 on, for an item that the guard at the
  top of the loop and the pacing pause have let through.
\<close>

definition processItem :: "Env \<Rightarrow> File list \<Rightarrow> nat \<Rightarrow> batch \<Rightarrow> batch step" where
  "processItem env fs i b =
     (case b of (results, processingErrors, s) \<Rightarrow>
        let file = fs ! i;
            here = \<lparr>current = i, total' = length fs, currentFile = Some (name file)\<rparr>;
            s1 = awaiting env i Parsing (logEvent (Extract i) ((setStatus PARSING s)\<lparr>progress := here\<rparr>))
        in case env_parseEmlFile env i file of
             Inl m \<Rightarrow>
               Continue (catchFileError env fs i
                 (''Error parseando archivo: '' @ orStr m ''Error desconocido en parseo'')
                 (results, processingErrors, s1))
           | Inr parsedRaw \<Rightarrow>
               let s2 = awaiting env i Analyzing
                          (logEvent (Enrich i) ((setStatus ANALYZING s1)\<lparr>progress := here\<rparr>))
               in case analyzeEmailContent (env_apiKey env) (env_tryBlock env i) parsedRaw of
                    Inl m \<Rightarrow>
                      Continue (catchFileError env fs i
                        (''Error en an'' @ [CHR 0xE1] @ ''lisis de Gemini: ''
                         @ orStr m ''Error desconocido en an'' @ [CHR 0xE1] @ ''lisis'')
                        (results, processingErrors, s2))
                  | Inr r \<Rightarrow>
                      let analysis = result r
                      in if AnalysisResult.tematica analysis = topicQuota then
                           Break (results, processingErrors,
                             setStatus ERROR
                               (s2\<lparr>errorMsg := Some ''Tu API Key ha excedido la cuota gratuita (429). Espera un minuto o revisa tu plan.''\<rparr>))
                         else if AnalysisResult.tematica analysis = topicFailure then
                           Continue (results,
                             processingErrors
                               @ [''Error analizando '' @ name file @ '': '' @ contenido_resumido analysis],
                             s2\<lparr>progress := \<lparr>current = i + 1, total' = length fs, currentFile = None\<rparr>\<rparr>)
                         else
                           let analyzedEmail = analyzedEmailOf env i file parsedRaw analysis;
                               s3 = snd (saveAndReload env i [analyzedEmail] s2)
                           in Continue (results @ [analyzedEmail], processingErrors,
                                s3\<lparr>progress := \<lparr>current = i + 1, total' = length fs,
                                      currentFile = (if i + 1 < length fs then Some (name (fs ! (i + 1)))
                                                     else None)\<rparr>\<rparr>))"

subsection \<open>The loop\<close>

text \<open>How the loop is left: its condition fails, \<open>break\<close>, \<open>return\<close>, or an exception.\<close>

datatype exit = Finished | Broke | Returned | Threw string

text \<open>The branch taken when the flag is found set at the top of the loop (lines 165 to 180).\<close>

definition cancelled :: "Env \<Rightarrow> nat \<Rightarrow> batch \<Rightarrow> exit \<times> batch" where
  "cancelled env i b =
     (case b of (results, processingErrors, s) \<Rightarrow>
        let s1 = setStatus IDLE
                   (s\<lparr>errorMsg := Some (''Procesamiento cancelado. '' @ decimal (length results)
                          @ '' archivo(s) procesado(s) antes de la cancelaci'' @ [CHR 0xF3] @ ''n.'')\<rparr>)
        in if results \<noteq> [] then
             (case saveAndReload env i results (setStatus GENERATING_DB s1) of
                (Some m, s2) \<Rightarrow> (Threw m, results, processingErrors, s2)
              | (None, s2) \<Rightarrow> (Returned, results, processingErrors, setStatus IDLE s2))
           else (Returned, results, processingErrors, setStatus IDLE s1))"

text \<open>
  \<open>capturedStatus\<close> is the identifier \<open>status\<close> as \<open>processFiles\<close> reads it: the constant
  that \<open>useState\<close> returned in the render that created this \<open>processFiles\<close>. \<open>setStatus\<close>
  asks for a later render and does not assign to it.
\<close>

function processLoop :: "Env \<Rightarrow> ProcessingStatus \<Rightarrow> File list \<Rightarrow> nat \<Rightarrow> batch \<Rightarrow> exit \<times> batch" where
  "processLoop env capturedStatus fs i b =
     (if i < length fs then
        (case b of (results, processingErrors, s) \<Rightarrow>
           if isProcessingCancelled s then cancelled env i b
           else
             let file = fs ! i;
                 s1 = (if capturedStatus \<noteq> COMPLETED \<and> capturedStatus \<noteq> ERROR
                       then s\<lparr>errorMsg := Some (''Procesando '' @ decimal (i + 1) @ ''/''
                                 @ decimal (length fs) @ '': '' @ name file)\<rparr>
                       else s);
                 s2 = (if i > 0 then pacingPause env i s1 else s1)
             in if i > 0 \<and> isProcessingCancelled s2
                then processLoop env capturedStatus fs (i + 1) (results, processingErrors, s2)
                else (case processItem env fs i (results, processingErrors, s2) of
                        Break b' \<Rightarrow> (Broke, b')
                      | Continue b' \<Rightarrow> processLoop env capturedStatus fs (i + 1) b'))
      else (Finished, b))"
  by pat_completeness auto
termination
  by (relation "measure (\<lambda>(env, capturedStatus, fs, i, b). length fs - i)") auto

declare processLoop.simps [simp del]

subsection \<open>processFiles\<close>

definition startBatch :: "App \<Rightarrow> App" where
  \<comment> \<open>lines 152 to 156\<close>
  "startBatch s =
     (setStatus PARSING (s\<lparr>isProcessingCancelled := False\<rparr>))
       \<lparr>progress := \<lparr>current = 0, total' = length (files s),
                       currentFile = (case files s of [] \<Rightarrow> None | f # _ \<Rightarrow> Some (name f))\<rparr>,
        errorMsg := None\<rparr>"

definition finishBatch :: "ProcessingStatus \<Rightarrow> exit \<times> batch \<Rightarrow> App" where
  \<comment> \<open>what follows the loop (lines 377 to 405), and the outer \<open>catch\<close> (lines 407 to 419)\<close>
  "finishBatch capturedStatus xb =
     (case xb of (x, results, processingErrors, s) \<Rightarrow>
        (case x of
           Returned \<Rightarrow> s
         | Threw m \<Rightarrow>
             (setStatus ERROR s)
               \<lparr>errorMsg := Some (if includesStr (orStr m ''Ocurri'' @ [CHR 0xF3] @ '' un error cr'' @ [CHR 0xED] @ ''tico.'') ''API Key''
                                   then orStr m ''Ocurri'' @ [CHR 0xF3] @ '' un error cr'' @ [CHR 0xED] @ ''tico.''
                                   else ''Error procesando ficheros. '' @ decimal (length results)
                                        @ '' procesado(s). Descarga los logs para detalles.'')\<rparr>
         | _ \<Rightarrow>
             let s1 = (if processingErrors = [] then s\<lparr>errorMsg := None\<rparr> else s);
                 s2 = (if capturedStatus \<noteq> ERROR \<and> \<not> isProcessingCancelled s1 then
                         (setStatus COMPLETED s1)
                           \<lparr>files := [],
                            progress := \<lparr>current = 0, total' = 0, currentFile = None\<rparr>,
                            errorMsg := (if processingErrors = [] then None
                                         else Some (decimal (length results) @ '' archivo(s) procesado(s). ''
                                                @ decimal (length processingErrors)
                                                @ '' error(es) - descarga los logs para detalles.''))\<rparr>
                       else s1)
             in s2\<lparr>isProcessingCancelled := False\<rparr>))"

definition batchExit :: "Env \<Rightarrow> App \<Rightarrow> exit \<times> batch" where
  \<comment> \<open>the loop of the batch that \<open>processFiles\<close> runs from the state \<open>s\<close>\<close>
  "batchExit env s = processLoop env (statusState s) (files s) 0 ([], [], startBatch s)"

definition processFiles :: "Env \<Rightarrow> App \<Rightarrow> App" where
  "processFiles env s =
     (if files s = [] then s
      else if \<not> isApiKeyValid s then s\<lparr>errorMsg := Some ''API Key no configurada.''\<rparr>
      else finishBatch (statusState s) (batchExit env s))"

subsection \<open>One item, seen from outside\<close>

text \<open>
  Three readings of \<open>processItem\<close> that the properties below are stated with: whether
  the item's analysis came back with the quota topic, the record that the item adds to
  \<open>results\<close> and hands to \<open>saveToDb\<close> (if any), and the events of the item when the user
  does not press the stop button.
\<close>

definition fileErrorMessage :: "Outcome \<Rightarrow> string" where
  \<comment> \<open>the message of the \<open>Error\<close> that reaches \<open>catch (fileError)\<close>\<close>
  "fileErrorMessage out =
     (case out of
        ParseThrew m \<Rightarrow> ''Error parseando archivo: '' @ orStr m ''Error desconocido en parseo''
      | AnalysisThrew m \<Rightarrow>
          ''Error en an'' @ [CHR 0xE1] @ ''lisis de Gemini: ''
          @ orStr m ''Error desconocido en an'' @ [CHR 0xE1] @ ''lisis''
      | Analysed parsedRaw analysis \<Rightarrow> [])"

definition quotaHit :: "Env \<Rightarrow> File list \<Rightarrow> nat \<Rightarrow> bool" where
  "quotaHit env fs i =
     (case itemOutcome env i (fs ! i) of
        Analysed parsedRaw analysis \<Rightarrow> AnalysisResult.tematica analysis = topicQuota
      | _ \<Rightarrow> False)"

definition itemRecord :: "Env \<Rightarrow> File list \<Rightarrow> nat \<Rightarrow> (string, string list) AnalyzedEmail option" where
  "itemRecord env fs i =
     (case itemOutcome env i (fs ! i) of
        Analysed parsedRaw analysis \<Rightarrow>
          if AnalysisResult.tematica analysis = topicQuota
             \<or> AnalysisResult.tematica analysis = topicFailure
          then None
          else Some (analyzedEmailOf env i (fs ! i) parsedRaw analysis)
      | out \<Rightarrow> Some (errorEmailOf env i (fs ! i) (fileErrorMessage out)))"

definition itemEvents :: "Env \<Rightarrow> File list \<Rightarrow> nat \<Rightarrow> event list" where
  "itemEvents env fs i =
     [SetStatus PARSING, Extract i]
     @ (case itemOutcome env i (fs ! i) of
          ParseThrew m \<Rightarrow> []
        | _ \<Rightarrow> [SetStatus ANALYZING, Enrich i])
     @ (if quotaHit env fs i then [SetStatus ERROR] else [])
     @ (case itemRecord env fs i of None \<Rightarrow> [] | Some r \<Rightarrow> [Persist i [r]])"

definition itemStore :: "Env \<Rightarrow> File list \<Rightarrow> store \<Rightarrow> nat \<Rightarrow> store" where
  \<comment> \<open>the store after the item's call of \<open>saveToDb\<close>, if it makes one\<close>
  "itemStore env fs st i =
     (case itemRecord env fs i of
        None \<Rightarrow> st
      | Some r \<Rightarrow> snd (saveToDb (env_newURL env) (env_normalizeWide env) (env_putError env i) [r] st))"

definition itemErrors :: "Env \<Rightarrow> File list \<Rightarrow> nat \<Rightarrow> string list" where
  \<comment> \<open>what the item appends to \<open>processingErrors\<close>\<close>
  "itemErrors env fs i =
     (case itemOutcome env i (fs ! i) of
        Analysed parsedRaw analysis \<Rightarrow>
          if AnalysisResult.tematica analysis = topicQuota then []
          else if AnalysisResult.tematica analysis = topicFailure
            then [''Error analizando '' @ name (fs ! i) @ '': '' @ contenido_resumido analysis]
          else []
      | out \<Rightarrow> [''Error procesando '' @ name (fs ! i) @ '': ''
                 @ orStr (fileErrorMessage out) ''Error desconocido''])"

text \<open>The user never presses the stop button.\<close>

definition quiet :: "Env \<Rightarrow> bool" where
  "quiet env \<longleftrightarrow> (\<forall>i a. \<not> env_stop env i a)"


text \<open>The events of the batch that \<open>processFiles\<close> runs from the state \<open>s\<close>.\<close>

definition batchEvents :: "Env \<Rightarrow> App \<Rightarrow> event list" where
  "batchEvents env s = drop (length (trace s)) (trace (processFiles env s))"

text \<open>The item that an event is about, and what a call of \<open>saveToDb\<close> was given.\<close>

definition touched :: "event \<Rightarrow> nat option" where
  "touched ev = (case ev of Extract i \<Rightarrow> Some i | Enrich i \<Rightarrow> Some i | Persist i rs \<Rightarrow> Some i
                 | SetStatus v \<Rightarrow> None)"

definition persistedOf :: "event \<Rightarrow> (nat \<times> string \<times> EmailStatus) list" where
  "persistedOf ev = (case ev of Persist i rs \<Rightarrow> map (\<lambda>r. (i, fileName r, status r)) rs | _ \<Rightarrow> [])"

section \<open>Sample inputs\<close>

definition sampleEmail :: "string \<Rightarrow> string list \<Rightarrow> (string, string list) AnalyzedEmail" where
  "sampleEmail n us =
     \<lparr>id' = ''0'', fileName = n, fechaEnvio = ''2025-11-29 07:50:00'', tematica = ''IA'',
      etiquetas = [''ia''], contenido = ''<p>x</p>'', urls = us, status = completed,
      errorMessage = None\<rparr>"

definition emptyStore :: store where
  "emptyStore = \<lparr>dbInstance = initTable, main_db = None\<rparr>"

definition sampleRaw :: ParsedEmailRaw where
  "sampleRaw = \<lparr>ParsedEmailRaw.fileName = ''a.eml'', rawDate = ''Sat, 29 Nov 2025 07:50:00 +0000'',
                 rawSubject = ''Weekly'', bodyText = ''Hello''\<rparr>"

definition rateLimited :: ApiError where
  "rateLimited = \<lparr>err_status = Some 429, err_code = None, err_message = Some ''Too Many Requests''\<rparr>"

definition noResponse :: ApiError where
  "noResponse = \<lparr>err_status = None, err_code = None, err_message = Some ''No response from AI''\<rparr>"

definition sampleAnalysis :: "string \<Rightarrow> string list \<Rightarrow> AnalysisResult" where
  "sampleAnalysis topic us =
     \<lparr>AnalysisResult.tematica = topic, AnalysisResult.etiquetas = [''ia''],
      contenido_resumido = ''<p>x</p>'', AnalysisResult.urls = us,
      fecha_normalizada = ''2025-11-29 07:50:00''\<rparr>"

definition sampleEnv :: "(nat \<Rightarrow> nat \<Rightarrow> ApiError + AnalysisResult) \<Rightarrow> (nat \<Rightarrow> Await \<Rightarrow> bool) \<Rightarrow> Env" where
  "sampleEnv tryBlock stop =
     \<lparr>env_newURL = newURL_http, env_normalizeWide = (\<lambda>w. None), env_apiKey = Some ''key'',
      env_parseEmlFile = (\<lambda>i file. Inr (sampleRaw\<lparr>ParsedEmailRaw.fileName := name file, bodyText := content file\<rparr>)),
      env_tryBlock = tryBlock,
      env_uuidv4 = (\<lambda>i. ''uuid-'' @ decimal i),
      env_now = (\<lambda>i. ''2025-11-29T07:50:00.000Z''),
      env_stop = stop,
      env_putError = (\<lambda>i. None)\<rparr>"

definition sampleApp :: "File list \<Rightarrow> App" where
  "sampleApp fs =
     \<lparr>files = fs, processedEmails = [], statusState = IDLE,
      progress = \<lparr>current = 0, total' = 0, currentFile = None\<rparr>, errorMsg = None,
      isApiKeyValid = True, isProcessingCancelled = False, storeState = emptyStore, trace = []\<rparr>"

definition twoFiles :: "File list" where
  "twoFiles = [\<lparr>name = ''a.eml'', content = ''Hello''\<rparr>, \<lparr>name = ''b.eml'', content = ''World''\<rparr>]"


text \<open>
  Five runs of a batch of two files. In the first three nobody presses stop: the service
  answers 429 to every attempt for the first file; it fails otherwise at every attempt
  for the first file; the first file cannot be read. In the last two the service
  answers, and the user presses stop while the first (the last) file is being analysed.
\<close>

definition sampleAnswer :: "ApiError + AnalysisResult" where
  "sampleAnswer = Inr (sampleAnalysis ''IA'' [''https://x.com/u/status/1''])"

definition quotaAtFirst :: Env where
  "quotaAtFirst = sampleEnv (\<lambda>i k. if i = 0 then Inl rateLimited else sampleAnswer) (\<lambda>i a. False)"

definition failureAtFirst :: Env where
  "failureAtFirst = sampleEnv (\<lambda>i k. if i = 0 then Inl noResponse else sampleAnswer) (\<lambda>i a. False)"

definition unreadableFirst :: Env where
  "unreadableFirst =
     (sampleEnv (\<lambda>i k. sampleAnswer) (\<lambda>i a. False))
       \<lparr>env_parseEmlFile := (\<lambda>i file. if i = 0 then Inl ''Empty file''
           else Inr (sampleRaw\<lparr>ParsedEmailRaw.fileName := name file, bodyText := content file\<rparr>))\<rparr>"


section \<open>Properties of the URL normalizer\<close>

lemma imatch_append:
  "map toLowerASCII q = map toLowerASCII p \<Longrightarrow> imatch p (q @ s) = Some s"
proof (induction p arbitrary: q)
  case Nil
  then show ?case by simp
next
  case (Cons a p)
  then obtain b q' where q: "q = b # q'" by (cases q) auto
  with Cons show ?case by simp
qed

lemma toLowerASCII_slash [simp]: "toLowerASCII c = CHR ''/'' \<longleftrightarrow> c = CHR ''/''"
  by (auto simp: toLowerASCII_def split: if_splits)

lemma toLowerASCII_notUpper:
  "c \<notin> set ''ABCDEFGHIJKLMNOPQRSTUVWXYZ'' \<Longrightarrow> toLowerASCII c = c"
  unfolding toLowerASCII_def by (simp add: map_of_eq_None_iff [THEN iffD2])

lemma toLowerASCII_fixed [simp]:
  "c \<in> set ''abcdefghijklmnopqrstuvwxyz:/.'' \<Longrightarrow> toLowerASCII c = c"
  by (rule toLowerASCII_notUpper) auto

lemma takeWhile_not_slash:
  "CHR ''/'' \<notin> set u \<Longrightarrow> takeWhile (\<lambda>c. c \<noteq> CHR ''/'') (u @ CHR ''/'' # s) = u"
  by (induction u) auto

lemma dropWhile_not_slash:
  "CHR ''/'' \<notin> set u \<Longrightarrow> dropWhile (\<lambda>c. c \<noteq> CHR ''/'') (u @ CHR ''/'' # s) = CHR ''/'' # s"
  by (induction u) auto

lemma takeWhile_digits:
  assumes "\<forall>c\<in>set ds. isDigit c" "rest = [] \<or> \<not> isDigit (hd rest)"
  shows "takeWhile isDigit (ds @ rest) = ds"
proof -
  have "takeWhile isDigit rest = []" using assms(2) by (cases rest) auto
  with assms(1) show ?thesis by (simp add: takeWhile_append2)
qed

lemma scheme_prefix:
  assumes "map toLowerASCII scheme \<in> {''http'', ''https''}"
  shows "\<exists>r0. imatch ''http'' (scheme @ ''://'' @ s) = Some r0 \<and>
          imatch ''://'' (imatchOptional ''s'' r0) = Some s"
proof -
  from assms consider "map toLowerASCII scheme = ''http''" | "map toLowerASCII scheme = ''https''"
    by auto
  then show ?thesis
  proof cases
    case 1
    then have "imatch ''http'' (scheme @ ''://'' @ s) = Some (''://'' @ s)"
      by (intro imatch_append) simp
    then show ?thesis by (simp add: imatchOptional_def)
  next
    case 2
    then obtain a b c d e where sch: "scheme = [a, b, c, d, e]"
      and low: "map toLowerASCII [a, b, c, d] = ''http''" "toLowerASCII e = CHR ''s''"
      by (auto simp: map_eq_Cons_conv)
    have "imatch ''http'' ([a, b, c, d] @ e # ''://'' @ s) = Some (e # ''://'' @ s)"
      using low(1) by (intro imatch_append) simp
    with sch low(2) show ?thesis by (simp add: imatchOptional_def)
  qed
qed

lemma host_prefix:
  assumes "map toLowerASCII host \<in> {''x.com'', ''twitter.com''}"
  shows "imatchEither ''x.com'' ''twitter.com'' (host @ s) = Some s"
proof -
  from assms consider "map toLowerASCII host = ''x.com''" | "map toLowerASCII host = ''twitter.com''"
    by auto
  then show ?thesis
  proof cases
    case 1
    then have "imatch ''x.com'' (host @ s) = Some s" by (intro imatch_append) simp
    then show ?thesis by (simp add: imatchEither_def)
  next
    case 2
    then have tw: "imatch ''twitter.com'' (host @ s) = Some s" by (intro imatch_append) simp
    from 2 obtain a h' where "host = a # h'" "toLowerASCII a = CHR ''t''"
      by (auto simp: map_eq_Cons_conv)
    then have "imatch ''x.com'' (host @ s) = None" by simp
    with tw show ?thesis by (simp add: imatchEither_def)
  qed
qed

text \<open>Every string of the pattern's shape is matched, with the expected groups.\<close>

lemma twitterMatch_shape:
  assumes sch: "map toLowerASCII scheme \<in> {''http'', ''https''}"
    and host: "map toLowerASCII host \<in> {''x.com'', ''twitter.com''}"
    and st: "map toLowerASCII st = ''/status/''"
    and user: "username \<noteq> []" "CHR ''/'' \<notin> set username"
    and ident: "statusId \<noteq> []" "\<forall>c\<in>set statusId. isDigit c"
    and rest: "rest = [] \<or> \<not> isDigit (hd rest)"
  shows "twitterMatch (scheme @ ''://'' @ host @ ''/'' @ username @ st @ statusId @ rest)
         = Some (username, statusId)"
proof -
  let ?tail = "username @ st @ statusId @ rest"
  obtain r0 where r0: "imatch ''http'' (scheme @ ''://'' @ host @ ''/'' @ ?tail) = Some r0"
    "imatch ''://'' (imatchOptional ''s'' r0) = Some (host @ ''/'' @ ?tail)"
    using scheme_prefix [OF sch] by blast
  have h: "imatchEither ''x.com'' ''twitter.com'' (host @ ''/'' @ ?tail) = Some (''/'' @ ?tail)"
    by (rule host_prefix [OF host])
  from st obtain st' where st': "st = CHR ''/'' # st'" by (auto simp: map_eq_Cons_conv)
  have tw: "takeWhile (\<lambda>c. c \<noteq> CHR ''/'') ?tail = username"
    using user(2) by (simp add: st' takeWhile_not_slash)
  have dw: "dropWhile (\<lambda>c. c \<noteq> CHR ''/'') ?tail = st @ statusId @ rest"
    using user(2) by (simp add: st' dropWhile_not_slash)
  have s: "imatch ''/status/'' (st @ statusId @ rest) = Some (statusId @ rest)"
    by (rule imatch_append) (simp add: st)
  have d: "takeWhile isDigit (statusId @ rest) = statusId"
    by (rule takeWhile_digits [OF ident(2) rest])
  show ?thesis
    unfolding twitterMatch_def
    using r0 h tw dw s d user(1) ident(1) by simp
qed

text \<open>The groups of a match are a non-empty name without \<open>/\<close> and a non-empty run of digits.\<close>

lemma twitterMatch_groups:
  assumes "twitterMatch url = Some (username, statusId)"
  shows "username \<noteq> [] \<and> CHR ''/'' \<notin> set username \<and> statusId \<noteq> [] \<and> (\<forall>c\<in>set statusId. isDigit c)"
proof -
  from assms obtain r4 r6 where
    u: "username = takeWhile (\<lambda>c. c \<noteq> CHR ''/'') r4" "username \<noteq> []"
    and i: "statusId = takeWhile isDigit r6" "statusId \<noteq> []"
    unfolding twitterMatch_def Let_def bind_eq_Some_conv
    by (metis option.distinct(1) option.inject prod.inject)
  have "CHR ''/'' \<notin> set username"
    unfolding u(1) by (auto dest: set_takeWhileD)
  moreover have "\<forall>c\<in>set statusId. isDigit c"
    unfolding i(1) by (auto dest: set_takeWhileD)
  ultimately show ?thesis using u(2) i(2) by simp
qed

lemma twitterMatch_canonical:
  assumes "twitterMatch url = Some (username, statusId)"
  shows "twitterMatch (''https://x.com/'' @ username @ ''/status/'' @ statusId) = Some (username, statusId)"
proof -
  from twitterMatch_groups [OF assms]
  have g: "username \<noteq> []" "CHR ''/'' \<notin> set username" "statusId \<noteq> []" "\<forall>c\<in>set statusId. isDigit c"
    by simp_all
  have "twitterMatch (''https'' @ ''://'' @ ''x.com'' @ ''/'' @ username @ ''/status/'' @ statusId @ [])
        = Some (username, statusId)"
    by (rule twitterMatch_shape [OF _ _ _ g]) simp_all
  then show ?thesis by simp
qed

text \<open>
  C7. Every URL of the social-post pattern (either scheme, either host, letters in any
  case, any continuation after the digits) is normalized to
  \<open>https://x.com/{user}/status/{id}\<close>: the result names neither the host alias nor
  anything that follows the status id.
\<close>

theorem normalizeUrl_social_post:
  assumes "map toLowerASCII scheme \<in> {''http'', ''https''}"
    and "map toLowerASCII host \<in> {''x.com'', ''twitter.com''}"
    and "map toLowerASCII st = ''/status/''"
    and "username \<noteq> []" "CHR ''/'' \<notin> set username"
    and "statusId \<noteq> []" "\<forall>c\<in>set statusId. isDigit c"
    and "rest = [] \<or> \<not> isDigit (hd rest)"
  shows "normalizeUrl newURL (scheme @ ''://'' @ host @ ''/'' @ username @ st @ statusId @ rest)
         = ''https://x.com/'' @ username @ ''/status/'' @ statusId"
  using twitterMatch_shape [OF assms] by (simp add: normalizeUrl_def)

theorem normalizeUrl_social_post_witness:
  "normalizeUrl newURL_http ''HTTP://Twitter.com/tom_doerr/Status/1994122993606205769?t=aZeb0&s=03''
     = ''https://x.com/tom_doerr/status/1994122993606205769''
   \<and> normalizeUrl newURL_http ''https://x.com/tom_doerr/status/1994122993606205769#top''
     = ''https://x.com/tom_doerr/status/1994122993606205769''"
  using normalizeUrl_social_post [of "''HTTP''" "''Twitter.com''" "''/Status/''" "''tom_doerr''"
      "''1994122993606205769''" "''?t=aZeb0&s=03''" newURL_http]
    normalizeUrl_social_post [of "''https''" "''x.com''" "''/status/''" "''tom_doerr''"
      "''1994122993606205769''" "''#top''" newURL_http]
  by (simp add: toLowerASCII_def isDigit_def)

lemma foldl_searchParams_delete:
  "foldl (\<lambda>u param. searchParams_delete param u) urlObj ps
     = urlObj\<lparr>searchParams := filter (\<lambda>(k, v). k \<notin> set ps) (searchParams urlObj)\<rparr>"
proof (induction ps arbitrary: urlObj)
  case Nil
  show ?case by simp
next
  case (Cons p ps)
  show ?case
    unfolding foldl_Cons Cons.IH
    by (simp add: searchParams_delete_def case_prod_beta)
qed

lemma stripTracking_eq:
  "stripTracking urlObj
     = urlObj\<lparr>searchParams := filter (\<lambda>(k, v). k \<notin> set trackingParams) (searchParams urlObj)\<rparr>"
  by (simp add: stripTracking_def foldl_searchParams_delete)

lemma stripTracking_idem: "stripTracking (stripTracking urlObj) = stripTracking urlObj"
  by (simp add: stripTracking_eq)

lemma stripTracking_no_query:
  "searchParams v = [] \<Longrightarrow> searchParams_toString (stripTracking v) = []"
  by (simp add: stripTracking_eq searchParams_toString_def urlencoded_def)

lemma normalizeUrl_generic:
  assumes "url \<noteq> []" "twitterMatch url = None"
  shows "normalizeUrl newURL url
     = (case newURL url of
          None \<Rightarrow> url
        | Some urlObj0 \<Rightarrow>
            if searchParams_toString (stripTracking urlObj0) = []
            then origin (stripTracking urlObj0) @ pathname (stripTracking urlObj0)
            else URL_toString (stripTracking urlObj0))"
  using assms by (simp add: normalizeUrl_def stripTracking_def Let_def split: option.splits)

lemma normalizeUrl_post:
  assumes "twitterMatch url = Some (username, statusId)"
  shows "normalizeUrl newURL url = ''https://x.com/'' @ username @ ''/status/'' @ statusId"
proof -
  from assms have "url \<noteq> []" by (auto simp: twitterMatch_def)
  with assms show ?thesis by (simp add: normalizeUrl_def)
qed

text \<open>The generic branch, applied to what it returned.\<close>

lemma normalizeUrl_generic_again:
  assumes ne: "url \<noteq> []" and m: "twitterMatch url = None"
    and rb: "readsBack newURL url"
    and mn: "twitterMatch (normalizeUrl newURL url) = None"
  shows "normalizeUrl newURL (normalizeUrl newURL url) = normalizeUrl newURL url"
proof (cases "normalizeUrl newURL url = []")
  case True
  then show ?thesis by (simp add: normalizeUrl_def)
next
  case n: False
  note again = normalizeUrl_generic [OF n mn, of newURL]
  show ?thesis
  proof (cases "newURL url")
    case None
    then have "normalizeUrl newURL url = url"
      by (simp add: normalizeUrl_generic [OF ne m])
    with None again show ?thesis by simp
  next
    case (Some urlObj0)
    let ?u = "stripTracking urlObj0"
    show ?thesis
    proof (cases "searchParams_toString ?u = []")
      case True
      with Some have r: "normalizeUrl newURL url = origin ?u @ pathname ?u"
        by (simp add: normalizeUrl_generic [OF ne m])
      show ?thesis
      proof (cases "newURL (origin ?u @ pathname ?u)")
        case None
        with again r show ?thesis by simp
      next
        case (Some v)
        with rb \<open>newURL url = Some urlObj0\<close> True
        have v: "origin v = origin ?u" "pathname v = pathname ?u" "searchParams v = []"
          by (simp_all add: readsBack_def Let_def)
        have "origin (stripTracking v) = origin v" "pathname (stripTracking v) = pathname v"
          by (simp_all add: stripTracking_eq)
        with again Some v stripTracking_no_query [OF v(3)] show ?thesis
          unfolding r by simp
      qed
    next
      case False
      with Some have r: "normalizeUrl newURL url = URL_toString ?u"
        by (simp add: normalizeUrl_generic [OF ne m])
      show ?thesis
      proof (cases "newURL (URL_toString ?u)")
        case None
        with again r show ?thesis by simp
      next
        case (Some v)
        with rb \<open>newURL url = Some urlObj0\<close> False have "v = ?u"
          by (simp add: readsBack_def Let_def)
        with again Some False show ?thesis
          unfolding r by (simp add: stripTracking_idem)
      qed
    qed
  qed
qed

text \<open>
  C6, as the code has it. For a URL constructor that reads back what \<open>normalizeUrl\<close> wrote,
  normalizing twice gives the same as normalizing once exactly when the normalization is
  not of the social-post pattern or is the canonical address of its post. For the empty
  string and for a string of the social-post pattern that is so whatever the constructor.
\<close>

theorem normalizeUrl_idempotent_iff:
  assumes "url = [] \<or> twitterMatch url \<noteq> None \<or> readsBack newURL url"
  shows "normalizeUrl newURL (normalizeUrl newURL url) = normalizeUrl newURL url
     \<longleftrightarrow> (case twitterMatch (normalizeUrl newURL url) of
            None \<Rightarrow> True
          | Some (username, statusId) \<Rightarrow>
              normalizeUrl newURL url = ''https://x.com/'' @ username @ ''/status/'' @ statusId)"
proof (cases "twitterMatch (normalizeUrl newURL url)")
  case (Some g)
  obtain username statusId where g: "g = (username, statusId)" by (cases g)
  from Some g normalizeUrl_post [of "normalizeUrl newURL url" username statusId newURL]
  show ?thesis by auto
next
  case None
  have "normalizeUrl newURL (normalizeUrl newURL url) = normalizeUrl newURL url"
  proof (cases "url = []")
    case True
    then show ?thesis by (simp add: normalizeUrl_def)
  next
    case ne: False
    show ?thesis
    proof (cases "twitterMatch url")
      case (Some g)
      obtain username statusId where g: "g = (username, statusId)" by (cases g)
      from Some g have m: "twitterMatch url = Some (username, statusId)" by simp
      then have "twitterMatch (''https://x.com/'' @ username @ ''/status/'' @ statusId)
          = Some (username, statusId)"
        by (rule twitterMatch_canonical)
      with None normalizeUrl_post [OF m, of newURL] show ?thesis by simp
    next
      case m: None
      with assms ne have "readsBack newURL url" by simp
      from normalizeUrl_generic_again [OF ne m this None] show ?thesis .
    qed
  qed
  with None show ?thesis by simp
qed

text \<open>
  C6, as the code has it, on a URL with tracking parameters only, on one that keeps a
  parameter and a fragment, and on text that is no URL.
\<close>

theorem normalizeUrl_idempotent_iff_witness:
  "normalizeUrl newURL_http ''https://github.com/a/b?utm_source=x&ref=y'' = ''https://github.com/a/b''
   \<and> normalizeUrl newURL_http (normalizeUrl newURL_http ''https://github.com/a/b?utm_source=x&ref=y'')
       = normalizeUrl newURL_http ''https://github.com/a/b?utm_source=x&ref=y''
   \<and> normalizeUrl newURL_http ''https://example.com/p?q=1&utm_source=x#top'' = ''https://example.com/p?q=1#top''
   \<and> normalizeUrl newURL_http (normalizeUrl newURL_http ''https://example.com/p?q=1&utm_source=x#top'')
       = normalizeUrl newURL_http ''https://example.com/p?q=1&utm_source=x#top''
   \<and> normalizeUrl newURL_http (normalizeUrl newURL_http ''see attachment'')
       = normalizeUrl newURL_http ''see attachment''"
proof -
  have rb: "readsBack newURL_http ''https://github.com/a/b?utm_source=x&ref=y''"
    "readsBack newURL_http ''https://example.com/p?q=1&utm_source=x#top''"
    "readsBack newURL_http ''see attachment''"
    by code_simp+
  have n: "normalizeUrl newURL_http ''https://github.com/a/b?utm_source=x&ref=y'' = ''https://github.com/a/b''"
    "normalizeUrl newURL_http ''https://example.com/p?q=1&utm_source=x#top'' = ''https://example.com/p?q=1#top''"
    "normalizeUrl newURL_http ''see attachment'' = ''see attachment''"
    by code_simp+
  have m: "twitterMatch ''https://github.com/a/b'' = None"
    "twitterMatch ''https://example.com/p?q=1#top'' = None"
    "twitterMatch ''see attachment'' = None"
    by code_simp+
  from normalizeUrl_idempotent_iff [of "''https://github.com/a/b?utm_source=x&ref=y''" newURL_http] rb(1)
  have 1: "normalizeUrl newURL_http (normalizeUrl newURL_http ''https://github.com/a/b?utm_source=x&ref=y'')
       = normalizeUrl newURL_http ''https://github.com/a/b?utm_source=x&ref=y''"
    unfolding n(1) m(1) by simp
  from normalizeUrl_idempotent_iff [of "''https://example.com/p?q=1&utm_source=x#top''" newURL_http] rb(2)
  have 2: "normalizeUrl newURL_http (normalizeUrl newURL_http ''https://example.com/p?q=1&utm_source=x#top'')
       = normalizeUrl newURL_http ''https://example.com/p?q=1&utm_source=x#top''"
    unfolding n(2) m(2) by simp
  from normalizeUrl_idempotent_iff [of "''see attachment''" newURL_http] rb(3)
  have 3: "normalizeUrl newURL_http (normalizeUrl newURL_http ''see attachment'')
       = normalizeUrl newURL_http ''see attachment''"
    unfolding n(3) m(3) by simp
  from 1 2 3 n(1,2) show ?thesis by (intro conjI)
qed

text \<open>
  C6, as stated, fails: a URL of an alias host that carries the scheme's default port is
  not of the social-post pattern; the generic branch drops the port, and only the result
  is of the pattern.
\<close>

theorem normalizeUrl_not_idempotent:
  "normalizeUrl newURL_http ''https://twitter.com:443/user/status/123456''
     = ''https://twitter.com/user/status/123456''
   \<and> normalizeUrl newURL_http (normalizeUrl newURL_http ''https://twitter.com:443/user/status/123456'')
     = ''https://x.com/user/status/123456''
   \<and> normalizeUrl newURL_http (normalizeUrl newURL_http ''https://twitter.com:443/user/status/123456'')
     \<noteq> normalizeUrl newURL_http ''https://twitter.com:443/user/status/123456''"
proof -
  have 1: "normalizeUrl newURL_http ''https://twitter.com:443/user/status/123456''
      = ''https://twitter.com/user/status/123456''"
    by code_simp
  have 2: "normalizeUrl newURL_http ''https://twitter.com/user/status/123456''
      = ''https://x.com/user/status/123456''"
    by code_simp
  show ?thesis by (simp add: 1 2)
qed

section \<open>JSON: what is written is read back\<close>

lemma lt16_cases:
  "(k::nat) < 16 \<Longrightarrow> k \<in> {0, 1, 2, 3, 4, 5, 6, 7, 8, 9, 10, 11, 12, 13, 14, 15}"
  by simp arith

lemma hexValue_hexDigitLower:
  assumes "k < 16"
  shows "hexValue (hexDigitLower k) = Some k"
  using lt16_cases [OF assms]
  by (auto simp: hexValue_def hexDigitLower_def)

lemma hex4_control:
  assumes "n < 256"
  shows "hex4 [CHR ''0'', CHR ''0'', hexDigitLower (n div 16), hexDigitLower n] = Some n"
proof -
  have a: "hexValue (hexDigitLower (n div 16)) = Some (n div 16)"
    using assms by (intro hexValue_hexDigitLower) simp
  have "hexDigitLower n = hexDigitLower (n mod 16)" by (simp add: hexDigitLower_def)
  then have b: "hexValue (hexDigitLower n) = Some (n mod 16)"
    by (simp add: hexValue_hexDigitLower)
  have z: "hexValue CHR ''0'' = Some 0" by (simp add: hexValue_def)
  show ?thesis by (simp add: hex4_def a b z)
qed

lemma parseChars_quoteChar: "parseChars (quoteChar c @ t) = consTo (of_char c) (parseChars t)"
proof -
  consider (dq) "c = dquote" | (bs) "c = backslash"
    | (short) "c \<in> {CHR 0x08, CHR 0x0C, CHR 0x0A, CHR 0x0D, CHR 0x09}"
    | (ctl) "c \<noteq> dquote" "c \<noteq> backslash" "c \<notin> {CHR 0x08, CHR 0x0C, CHR 0x0A, CHR 0x0D, CHR 0x09}" "(of_char c :: nat) < 32"
    | (plain) "c \<noteq> dquote" "c \<noteq> backslash" "\<not> (of_char c :: nat) < 32"
    by blast
  then show ?thesis
  proof cases
    case dq
    then show ?thesis by (simp add: quoteChar_def unescape_def dquote_def backslash_def)
  next
    case bs
    then show ?thesis by (simp add: quoteChar_def unescape_def dquote_def backslash_def)
  next
    case short
    then show ?thesis by (auto simp: quoteChar_def unescape_def dquote_def backslash_def)
  next
    case ctl
    let ?n = "of_char c :: nat"
    have q: "quoteChar c = [backslash, CHR ''u'', CHR ''0'', CHR ''0'', hexDigitLower (?n div 16), hexDigitLower ?n]"
      using ctl by (simp add: quoteChar_def)
    have h: "hex4 [CHR ''0'', CHR ''0'', hexDigitLower (?n div 16), hexDigitLower ?n] = Some ?n"
      using ctl(4) by (intro hex4_control) simp
    have bsdq: "backslash \<noteq> dquote" by (simp add: dquote_def backslash_def)
    show ?thesis using ctl(4) by (simp add: q h bsdq)
  next
    case plain
    then have "quoteChar c = [c]" by (auto simp: quoteChar_def)
    with plain show ?thesis by simp
  qed
qed

lemma parseChars_quoted:
  "parseChars (concat (map quoteChar s) @ dquote # rest) = Some (units s, rest)"
  by (induction s) (simp_all add: parseChars_quoteChar consTo_def units_def)

lemma skipWS_nonspace: "\<not> isJSONSpace c \<Longrightarrow> skipWS (c # s) = c # s"
  by (simp add: skipWS_def)

lemma nonspace_marks [simp]:
  "\<not> isJSONSpace dquote" "\<not> isJSONSpace CHR '',''" "\<not> isJSONSpace CHR '']''" "\<not> isJSONSpace CHR ''[''"
  by (simp_all add: isJSONSpace_def dquote_def)

lemma dquote_marks [simp]:
  "dquote \<noteq> CHR '',''" "dquote \<noteq> CHR '']''" "dquote \<noteq> CHR ''[''"
  "CHR '','' \<noteq> dquote" "CHR '']'' \<noteq> dquote" "CHR ''['' \<noteq> dquote"
  by (simp_all add: dquote_def)

lemma parseValue_string:
  "0 < n \<Longrightarrow> parseValue n (quoteJSONString x @ rest) = Some (JString (units x), rest)"
  by (cases n) (simp_all add: quoteJSONString_def parseChars_quoted)

lemma parseValue_array:
  assumes "0 < n" "take 1 (skipWS s) \<noteq> '']''"
  shows "parseValue n (CHR ''['' # s) = map_option (\<lambda>(xs, r). (JArray xs, r)) (parseElements (n - 1) (skipWS s))"
  using assms by (cases n) simp_all

lemma parseValue_empty_array:
  "0 < n \<Longrightarrow> parseValue n (''[]'' @ rest) = Some (JArray [], rest)"
  by (cases n) (simp_all add: skipWS_nonspace)

lemma joinWith_quoted_Cons:
  "\<exists>t. joinWith '','' (map quoteJSONString (y # ys)) = dquote # t"
  by (cases ys) (simp_all add: quoteJSONString_def)

lemma parseElements_last:
  assumes "parseValue n s = Some (v, CHR '']'' # rest)"
  shows "parseElements (Suc n) s = Some ([v], rest)"
  using assms by (simp add: skipWS_nonspace)

lemma parseElements_more:
  assumes "parseValue n s = Some (v, CHR '','' # s')" "skipWS s' = s'"
  shows "parseElements (Suc n) s = consTo v (parseElements n s')"
  using assms by (simp add: skipWS_nonspace)

lemma parseElements_strings:
  "xs \<noteq> [] \<Longrightarrow> length xs < n \<Longrightarrow>
   parseElements n (joinWith '','' (map quoteJSONString xs) @ CHR '']'' # rest)
   = Some (map (\<lambda>x. JString (units x)) xs, rest)"
proof (induction xs arbitrary: n)
  case Nil
  then show ?case by simp
next
  case (Cons x xs)
  from Cons.prems obtain m where n: "n = Suc (Suc m)" "length xs \<le> m"
    by (cases n; cases "n - 1") auto
  show ?case
  proof (cases xs)
    case Nil
    have "parseValue (Suc m) (quoteJSONString x @ CHR '']'' # rest) = Some (JString (units x), CHR '']'' # rest)"
      by (rule parseValue_string) simp
    then have "parseElements (Suc (Suc m)) (quoteJSONString x @ CHR '']'' # rest) = Some ([JString (units x)], rest)"
      by (rule parseElements_last)
    with Nil n show ?thesis by simp
  next
    case (Cons y ys)
    let ?tl = "joinWith '','' (map quoteJSONString (y # ys)) @ CHR '']'' # rest"
    obtain t where t: "joinWith '','' (map quoteJSONString (y # ys)) = dquote # t"
      using joinWith_quoted_Cons by blast
    have ih: "parseElements (Suc m) ?tl = Some (map (\<lambda>x. JString (units x)) (y # ys), rest)"
      using Cons.IH [of "Suc m"] n Cons by simp
    have sk: "skipWS ?tl = ?tl"
      unfolding t by (simp add: skipWS_nonspace)
    have "parseValue (Suc m) (quoteJSONString x @ CHR '','' # ?tl) = Some (JString (units x), CHR '','' # ?tl)"
      by (rule parseValue_string) simp
    then have "parseElements (Suc (Suc m)) (quoteJSONString x @ CHR '','' # ?tl)
        = consTo (JString (units x)) (parseElements (Suc m) ?tl)"
      using sk by (rule parseElements_more)
    then have "parseElements (Suc (Suc m)) (quoteJSONString x @ CHR '','' # ?tl)
        = Some (map (\<lambda>x. JString (units x)) (x # y # ys), rest)"
      by (simp only: ih consTo_def) simp
    moreover have "joinWith '','' (map quoteJSONString (x # y # ys)) @ CHR '']'' # rest
        = quoteJSONString x @ CHR '','' # ?tl"
      by simp
    ultimately show ?thesis unfolding Cons n(1) by (simp only:)
  qed
qed

lemma length_joinWith_quoted:
  "length xs \<le> length (joinWith '','' (map quoteJSONString xs))"
  by (induction xs rule: induct_list012) (simp_all add: quoteJSONString_def)

lemma JSON_roundtrip: "JSON_parse (JSON_stringify xs) = Inr (JArray (map (\<lambda>x. JString (units x)) xs))"
proof (cases xs)
  case Nil
  have "parseValue (2 * length ''[]'' + 2) (''[]'' @ []) = Some (JArray [], [])"
    by (rule parseValue_empty_array) simp
  with Nil show ?thesis
    by (simp add: JSON_parse_def JSON_stringify_def skipWS_nonspace skipWS_def)
next
  case (Cons y ys)
  let ?body = "joinWith '','' (map quoteJSONString xs)"
  obtain t where t: "?body = dquote # t"
    using joinWith_quoted_Cons Cons by blast
  have str: "JSON_stringify xs = CHR ''['' # ?body @ '']''"
    by (simp add: JSON_stringify_def)
  have len: "length xs < 2 * length (JSON_stringify xs) + 1"
    using length_joinWith_quoted [of xs] by (simp add: str)
  have el: "parseElements (2 * length (JSON_stringify xs) + 1) (?body @ CHR '']'' # []) = Some (map (\<lambda>x. JString (units x)) xs, [])"
    using Cons len by (intro parseElements_strings) simp_all
  have sk: "skipWS (?body @ '']'') = ?body @ '']''"
    unfolding t by (simp add: skipWS_nonspace)
  have ne: "take 1 (skipWS (?body @ '']'')) \<noteq> '']''"
    unfolding sk by (simp add: t)
  have "parseValue (2 * length (JSON_stringify xs) + 2) (CHR ''['' # ?body @ '']'')
      = map_option (\<lambda>(xs, r). (JArray xs, r))
          (parseElements (2 * length (JSON_stringify xs) + 2 - 1) (skipWS (?body @ '']'')))"
    by (rule parseValue_array [OF _ ne]) simp
  also have "2 * length (JSON_stringify xs) + 2 - 1 = 2 * length (JSON_stringify xs) + 1"
    by simp
  finally have pv: "parseValue (2 * length (JSON_stringify xs) + 2) (CHR ''['' # ?body @ '']'')
      = Some (JArray (map (\<lambda>x. JString (units x)) xs), [])"
    unfolding sk by (simp only: el) simp
  have "skipWS (JSON_stringify xs) = CHR ''['' # ?body @ '']''"
    by (simp add: str skipWS_nonspace)
  with pv show ?thesis
    unfolding JSON_parse_def by (simp add: skipWS_def)
qed

section \<open>The record store\<close>

subsection \<open>The three sets are those of the table\<close>

lemma narrow_units [simp]: "narrow (units u) = Some u"
  by (simp add: narrow_def units_def list_all_iff comp_def map_idI)

lemma jsonStrings_map [simp]: "jsonStrings (map (\<lambda>x. JString (units x)) us) = map units us"
  by (induction us) (simp_all add: jsonStrings_def)

lemma JSON_stringify_nonempty [simp]: "JSON_stringify us \<noteq> []"
  by (simp add: JSON_stringify_def)

lemma storedUrls_stringify [simp]: "storedUrls (Some (JSON_stringify us)) = map units us"
  by (simp add: storedUrls_def orElse_def JSON_roundtrip)

lemma map_filter_append: "List.map_filter f (xs @ ys) = List.map_filter f xs @ List.map_filter f ys"
  by (simp add: List.map_filter_def)

lemma map_filter_units [simp]: "List.map_filter narrow (map units us) = us"
  by (induction us) (simp_all add: List.map_filter_simps)

lemma map_filter_normalize_units [simp]:
  "List.map_filter (\<lambda>w. case narrow w of Some u \<Rightarrow> Some (f u) | None \<Rightarrow> g w) (map units us) = map f us"
  by (induction us) (simp_all add: List.map_filter_simps)

lemma getExistingFileNames_foldl:
  "foldl (\<lambda>fileNames r. case col_fileName r of
                            None \<Rightarrow> fileNames
                          | Some n \<Rightarrow> if n = [] then fileNames else insert n fileNames) A rs
     = A \<union> set (filter (\<lambda>n. n \<noteq> []) (List.map_filter col_fileName rs))"
  by (induction rs arbitrary: A) (auto simp: List.map_filter_simps split: option.splits)

lemma getExistingFileNames_fileNamesOf: "getExistingFileNames st = fileNamesOf (dbInstance st)"
  by (simp add: getExistingFileNames_def fileNamesOf_def getExistingFileNames_foldl)

lemma addUrls_sets:
  "existingFileNames (addUrls newURL us ix) = existingFileNames ix"
  "existingUrlSets (addUrls newURL us ix) = existingUrlSets ix \<union> set us"
  "existingNormalizedUrlSets (addUrls newURL us ix)
     = existingNormalizedUrlSets ix \<union> normalizeUrl newURL ` set us"
  by (induction us arbitrary: ix) (auto simp: addUrls_def)

lemma addStored_all:
  "existingFileNames (addStored newURL nw ws ix) = existingFileNames ix
   \<and> existingUrlSets (addStored newURL nw ws ix) = existingUrlSets ix \<union> set (List.map_filter narrow ws)
   \<and> existingNormalizedUrlSets (addStored newURL nw ws ix)
     = existingNormalizedUrlSets ix
       \<union> set (List.map_filter
            (\<lambda>w. case narrow w of Some u \<Rightarrow> Some (normalizeUrl newURL u) | None \<Rightarrow> nw w) ws)"
proof (induction ws arbitrary: ix)
  case Nil
  show ?case by (simp add: addStored_def List.map_filter_simps)
next
  case (Cons w ws)
  have step: "addStored newURL nw (w # ws) ix
      = addStored newURL nw ws
          (case narrow w of
             Some u \<Rightarrow> addUrls newURL [u] ix
           | None \<Rightarrow> (case nw w of
                        Some n \<Rightarrow> ix\<lparr>existingNormalizedUrlSets := insert n (existingNormalizedUrlSets ix)\<rparr>
                      | None \<Rightarrow> ix))"
    by (simp add: addStored_def)
  show ?case unfolding step
    by (cases "narrow w"; cases "nw w")
      (simp_all add: Cons.IH addUrls_sets List.map_filter_simps)
qed

lemmas addStored_sets = addStored_all [THEN conjunct1] addStored_all [THEN conjunct2, THEN conjunct1]
  addStored_all [THEN conjunct2, THEN conjunct2]

lemma existingIndex_foldl:
  "foldl (\<lambda>ix r. addStored newURL nw (storedUrls (col_urls r)) ix) ix rs
     = \<lparr>existingFileNames = existingFileNames ix,
        existingUrlSets = existingUrlSets ix
          \<union> set (List.map_filter narrow (concat (map (\<lambda>r. storedUrls (col_urls r)) rs))),
        existingNormalizedUrlSets = existingNormalizedUrlSets ix
          \<union> set (List.map_filter
               (\<lambda>w. case narrow w of Some u \<Rightarrow> Some (normalizeUrl newURL u) | None \<Rightarrow> nw w)
               (concat (map (\<lambda>r. storedUrls (col_urls r)) rs)))\<rparr>"
proof (induction rs arbitrary: ix)
  case Nil
  show ?case by (simp add: List.map_filter_simps)
next
  case (Cons r rs)
  show ?case
    by (simp add: Cons.IH addStored_sets map_filter_append Un_assoc)
qed

lemma existingIndex_indexOf:
  "existingIndex newURL nw st = indexOf newURL nw (dbInstance st)"
  by (simp add: existingIndex_def existingIndex_foldl indexOf_def rawUrlsOf_def
      normalizedUrlsOf_def storedStrings_def getExistingFileNames_fileNamesOf)

subsection \<open>One record\<close>

text \<open>
  The loop over the indices of \<open>email.urls\<close> decides an intersection of sets: the lost
  empty results shift \<open>normalizedUrls\<close> to lower indices only, so that each of its entries
  is still met.
\<close>

lemma length_normalizeUrls: "length (normalizeUrls newURL us) \<le> length us"
  unfolding normalizeUrls_def using length_filter_le [of _ "map (normalizeUrl newURL) us"] by simp

lemma set_normalizeUrls: "set (normalizeUrls newURL us) = normalizeUrl newURL ` set us - {[]}"
  by (auto simp: normalizeUrls_def)

lemma urlHit_indexOf:
  "urlHit newURL (indexOf newURL nw d) us = None \<longleftrightarrow> \<not> isUrlDuplicateOf newURL nw d us"
proof -
  let ?ns = "normalizeUrls newURL us"
  let ?N = "normalizedUrlsOf newURL nw d"
  have raw: "(\<exists>i<length us. us ! i \<in> rawUrlsOf d) \<longleftrightarrow> (\<exists>u\<in>set us. u \<in> rawUrlsOf d)"
    unfolding Bex_def in_set_conv_nth by blast
  have "(\<exists>i<length us. i < length ?ns \<and> ?ns ! i \<in> ?N) \<longleftrightarrow> (\<exists>i<length ?ns. ?ns ! i \<in> ?N)"
    using length_normalizeUrls [of newURL us] by (meson le_trans less_le_trans not_le)
  also have "\<dots> \<longleftrightarrow> (\<exists>n\<in>set ?ns. n \<in> ?N)"
    unfolding Bex_def in_set_conv_nth by blast
  also have "\<dots> \<longleftrightarrow> (\<exists>u\<in>set us. normalizeUrl newURL u \<noteq> [] \<and> normalizeUrl newURL u \<in> ?N)"
    unfolding set_normalizeUrls by auto
  finally have norm: "(\<exists>i<length us. i < length ?ns \<and> ?ns ! i \<in> ?N)
      \<longleftrightarrow> (\<exists>u\<in>set us. normalizeUrl newURL u \<noteq> [] \<and> normalizeUrl newURL u \<in> ?N)" .
  have "urlHit newURL (indexOf newURL nw d) us = None
      \<longleftrightarrow> \<not> ((\<exists>i<length us. us ! i \<in> rawUrlsOf d) \<or> (\<exists>i<length us. i < length ?ns \<and> ?ns ! i \<in> ?N))"
    by (auto simp: urlHit_def indexOf_def find_None_iff Let_def)
  then show ?thesis unfolding raw norm isUrlDuplicateOf_def .
qed

lemma duplicateReason_indexOf:
  "fileName email \<noteq> [] \<Longrightarrow>
   duplicateReason newURL (indexOf newURL nw d) email = None \<longleftrightarrow> \<not> isDuplicateOf newURL nw d email"
  using urlHit_indexOf [of newURL nw d "urls email"]
  by (auto simp: duplicateReason_def isDuplicateOf_def indexOf_def split: option.splits)

lemma insertRow_appendEmail:
  "insertRow (fileName email) (fechaEnvio email) (orElse (Some (tematica email)) ''Sin clasificar'')
     (JSON_stringify (etiquetas email)) (contenido email) (JSON_stringify (urls email)) d
   = appendEmail email d"
  by (simp add: insertRow_def appendEmail_def emailRow_def orElse_def)

lemma indexOf_appendEmail:
  assumes "fileName email \<noteq> []"
  shows "indexOf newURL nw (appendEmail email d)
     = addUrls newURL (urls email)
         ((indexOf newURL nw d)\<lparr>existingFileNames := insert (fileName email) (fileNamesOf d)\<rparr>)"
proof -
  have r: "rows (appendEmail email d) = rows d @ [emailRow (nextRowid d) email]"
    by (simp add: appendEmail_def)
  have 1: "fileNamesOf (appendEmail email d) = insert (fileName email) (fileNamesOf d)"
    using assms by (auto simp: fileNamesOf_def r map_filter_append List.map_filter_simps emailRow_def)
  have s: "storedStrings (appendEmail email d) = storedStrings d @ map units (urls email)"
    by (simp add: storedStrings_def r emailRow_def)
  have 2: "rawUrlsOf (appendEmail email d) = rawUrlsOf d \<union> set (urls email)"
    by (simp add: rawUrlsOf_def s map_filter_append)
  have 3: "normalizedUrlsOf newURL nw (appendEmail email d)
      = normalizedUrlsOf newURL nw d \<union> normalizeUrl newURL ` set (urls email)"
    by (simp add: normalizedUrlsOf_def s map_filter_append)
  show ?thesis
    by (rule dedup.equality) (simp_all add: indexOf_def addUrls_sets 1 2 3)
qed

lemma saveEmail_invalid:
  "fileName email = [] \<Longrightarrow>
   saveEmail newURL i email l
     = l\<lparr>errors := errors l @ [''Email '' @ decimal (i + 1) @ '': fileName faltante'']\<rparr>"
  by (simp add: saveEmail_def)

lemma saveEmail_valid:
  assumes "fileName email \<noteq> []" and "index l = indexOf newURL nw (db l)"
  shows "saveEmail newURL i email l
     = (if isDuplicateOf newURL nw (db l) email then l
        else l\<lparr>index := indexOf newURL nw (appendEmail email (db l)),
               db := appendEmail email (db l), addedCount := addedCount l + 1\<rparr>)"
proof -
  have ix: "existingFileNames (index l) = fileNamesOf (db l)"
    by (simp add: assms(2) indexOf_def)
  show ?thesis
    using duplicateReason_indexOf [OF assms(1), of newURL nw "db l"]
    unfolding saveEmail_def Let_def insertRow_appendEmail indexOf_appendEmail [OF assms(1)] ix
    by (simp add: assms)
qed

subsection \<open>The loop\<close>

lemma invalidMessages_Nil [simp]: "invalidMessages i [] = []"
  by (simp add: invalidMessages_def)

lemma invalidMessages_Cons:
  "invalidMessages i (e # es)
     = (if fileName e = [] then [''Email '' @ decimal (i + 1) @ '': fileName faltante''] else [])
       @ invalidMessages (Suc i) es"
  by (simp add: invalidMessages_def)

lemma length_rows_appendAll:
  "length (rows d) \<le> length (rows (appendAll newURL nw emails d))"
proof (induction emails arbitrary: d)
  case Nil
  show ?case by simp
next
  case (Cons e es)
  have "length (rows d) \<le> length (rows (appendEmail e d))" by (simp add: appendEmail_def)
  with Cons.IH [of "appendEmail e d"] Cons.IH [of d] show ?case by auto
qed

lemma forEachEmail_appendAll:
  assumes "index l = indexOf newURL nw (db l)"
  shows "forEachEmail newURL i emails l
     = l\<lparr>index := indexOf newURL nw (appendAll newURL nw emails (db l)),
         db := appendAll newURL nw emails (db l),
         addedCount := addedCount l
            + (length (rows (appendAll newURL nw emails (db l))) - length (rows (db l))),
         errors := errors l @ invalidMessages i emails\<rparr>"
  using assms
proof (induction emails arbitrary: i l)
  case Nil
  then show ?case by simp
next
  case (Cons e es)
  show ?case
  proof (cases "fileName e = []")
    case True
    let ?l = "l\<lparr>errors := errors l @ [''Email '' @ decimal (i + 1) @ '': fileName faltante'']\<rparr>"
    have "index ?l = indexOf newURL nw (db ?l)" using Cons.prems by simp
    from Cons.IH [OF this, of "i + 1"] True show ?thesis
      by (simp add: saveEmail_invalid invalidMessages_Cons)
  next
    case valid: False
    show ?thesis
    proof (cases "isDuplicateOf newURL nw (db l) e")
      case True
      with Cons.IH [OF Cons.prems, of "i + 1"] valid show ?thesis
        by (simp add: saveEmail_valid [OF valid Cons.prems] invalidMessages_Cons)
    next
      case False
      let ?l = "l\<lparr>index := indexOf newURL nw (appendEmail e (db l)),
               db := appendEmail e (db l), addedCount := addedCount l + 1\<rparr>"
      have ix: "index ?l = indexOf newURL nw (db ?l)" by simp
      have le: "Suc (length (rows (db l))) \<le> length (rows (appendAll newURL nw es (appendEmail e (db l))))"
        using length_rows_appendAll [of "appendEmail e (db l)" newURL nw es]
        by (simp add: appendEmail_def)
      have len: "length (rows (appendEmail e (db l))) = Suc (length (rows (db l)))"
        by (simp add: appendEmail_def)
      have n: "Suc (a + (m - Suc k)) = a + (m - k)" "a + m - k = a + (m - k)"
        if "Suc k \<le> m" for a m k :: nat
        using that by simp_all
      from Cons.IH [OF ix, of "i + 1"] valid False show ?thesis
        by (simp add: saveEmail_valid [OF valid Cons.prems] invalidMessages_Cons len n [OF le])
    qed
  qed
qed

subsection \<open>saveToDb\<close>

text \<open>
  The table that a call leaves, the \<open>Error\<close> it throws and what it writes to IndexedDB, for
  every store, every list of records and every outcome of the write.
\<close>

lemma saveToDb_appendAll:
  "dbInstance (snd (saveToDb newURL nw putError emails st))
     = appendAll newURL nw emails (dbInstance st)"
  by (cases "emails = []")
    (simp_all add: saveToDb_def Let_def existingIndex_indexOf
      forEachEmail_appendAll [of _ newURL nw] split: option.splits)

lemma saveToDb_outcome:
  fixes newURL nw putError emails st
  assumes "emails \<noteq> []"
  defines "d' \<equiv> appendAll newURL nw emails (dbInstance st)"
  defines "listed \<equiv> (if invalidMessages 0 emails = [] then None
       else Some (''Errores guardando algunos emails: '' @ joinWith ''; '' (invalidMessages 0 emails)))"
  shows "saveToDb newURL nw putError emails st
     = (if length (rows (dbInstance st)) < length (rows d') then
          (case putError of
             Some msg \<Rightarrow> (Some (''Error guardando en almacenamiento: '' @ msg), st\<lparr>dbInstance := d'\<rparr>)
           | None \<Rightarrow> (listed, st\<lparr>dbInstance := d', main_db := Some d'\<rparr>))
        else (listed, st\<lparr>dbInstance := d'\<rparr>))"
  using assms(1) unfolding d'_def listed_def
  by (simp add: saveToDb_def Let_def existingIndex_indexOf
      forEachEmail_appendAll [of _ newURL nw] split: option.splits)

lemma rows_appendAll:
  "\<exists>new. rows (appendAll newURL nw emails d) = rows d @ new"
proof (induction emails arbitrary: d)
  case Nil
  show ?case by simp
next
  case (Cons e es)
  from Cons.IH [of d] Cons.IH [of "appendEmail e d"] show ?case
    by (auto simp: appendEmail_def)
qed

lemma rows_appendAll_changed:
  "length (rows d) < length (rows (appendAll newURL nw emails d))
     \<longleftrightarrow> rows (appendAll newURL nw emails d) \<noteq> rows d"
  using rows_appendAll [of newURL nw emails d] by auto

lemma appendAll_valid:
  "appendAll newURL nw (filter (\<lambda>e. fileName e \<noteq> []) emails) d = appendAll newURL nw emails d"
  by (induction emails arbitrary: d) simp_all

lemma invalidMessages_nonempty:
  "\<exists>e\<in>set emails. fileName e = [] \<Longrightarrow> invalidMessages i emails \<noteq> []"
  by (induction emails arbitrary: i) (auto simp: invalidMessages_Cons)

lemma duplicateReason_url:
  assumes "isUrlDuplicateOf newURL nw d (urls email)"
  shows "\<exists>n. duplicateReason newURL (indexOf newURL nw d) email = Some (''URL ya existe en BD: '' @ n)"
proof -
  from assms urlHit_indexOf [of newURL nw d "urls email"]
  obtain i where "urlHit newURL (indexOf newURL nw d) (urls email) = Some i" by auto
  then show ?thesis by (simp add: duplicateReason_def)
qed

lemma duplicateReason_fileName:
  assumes "\<not> isUrlDuplicateOf newURL nw d (urls email)" "fileName email \<noteq> []"
  shows "duplicateReason newURL (indexOf newURL nw d) email
     = (if fileName email \<in> fileNamesOf d then Some (''fileName ya existe en BD: '' @ fileName email)
        else None)"
  using assms urlHit_indexOf [of newURL nw d "urls email"]
  by (simp add: duplicateReason_def indexOf_def)

text \<open>What the second of two records with a common normalized URL meets.\<close>

lemma second_is_duplicate:
  assumes "fileName a \<noteq> []" "uA \<in> set (urls a)" "uB \<in> set (urls b)"
    "normalizeUrl newURL uA = normalizeUrl newURL uB" "normalizeUrl newURL uB \<noteq> []"
  shows "isDuplicateOf newURL nw (appendEmail a d) b"
proof -
  have "normalizeUrl newURL uA \<in> normalizeUrl newURL ` set (urls a)"
    using assms(2) by (rule imageI)
  then have "normalizeUrl newURL uB \<in> existingNormalizedUrlSets (indexOf newURL nw (appendEmail a d))"
    unfolding indexOf_appendEmail [OF assms(1)] addUrls_sets assms(4) by simp
  then have "normalizeUrl newURL uB \<in> normalizedUrlsOf newURL nw (appendEmail a d)"
    by (simp add: indexOf_def)
  with assms(3,5) show ?thesis
    unfolding isDuplicateOf_def isUrlDuplicateOf_def by blast
qed

text \<open>
  C1, as the code has it. The table that a call of \<open>saveToDb\<close> leaves is the table that its
  records leave when each is judged against the table left by those before it. A record
  is a duplicate when one of its URLs is among the stored URLs or the normalization of one
  of its URLs is among the normalizations of the stored URLs (raw against raw and
  normalized against normalized: the normalization of a URL is not looked up among the
  stored URLs themselves), and this test comes first: when it hits, the reason recorded is
  the URL, whatever the \<open>fileName\<close>; the \<open>fileName\<close> is the reason only when no URL hits.
  Hence two records of which the second has a URL with the normalization of a URL of the
  first, the first being no duplicate, add the row of the first only, in one call and in
  two successive calls.
\<close>

theorem saveToDb_duplicate_decision:
  "dbInstance (snd (saveToDb newURL nw putError emails st))
     = appendAll newURL nw emails (dbInstance st)
   \<and> (isUrlDuplicateOf newURL nw (dbInstance st) (urls email)
        \<longrightarrow> (\<exists>n. duplicateReason newURL (existingIndex newURL nw st) email
                     = Some (''URL ya existe en BD: '' @ n)))
   \<and> (\<not> isUrlDuplicateOf newURL nw (dbInstance st) (urls email) \<and> fileName email \<noteq> []
        \<longrightarrow> duplicateReason newURL (existingIndex newURL nw st) email
              = (if fileName email \<in> fileNamesOf (dbInstance st)
                 then Some (''fileName ya existe en BD: '' @ fileName email) else None))
   \<and> (fileName a \<noteq> [] \<and> \<not> isDuplicateOf newURL nw (dbInstance st) a
        \<and> uA \<in> set (urls a) \<and> uB \<in> set (urls b)
        \<and> normalizeUrl newURL uA = normalizeUrl newURL uB \<and> normalizeUrl newURL uB \<noteq> []
        \<longrightarrow> dbInstance (snd (saveToDb newURL nw p [a, b] st)) = appendEmail a (dbInstance st)
            \<and> dbInstance (snd (saveToDb newURL nw p2 [b] (snd (saveToDb newURL nw p1 [a] st))))
                = appendEmail a (dbInstance st))"
proof (intro conjI impI)
  show "dbInstance (snd (saveToDb newURL nw putError emails st))
     = appendAll newURL nw emails (dbInstance st)"
    by (rule saveToDb_appendAll)
next
  assume "isUrlDuplicateOf newURL nw (dbInstance st) (urls email)"
  then show "\<exists>n. duplicateReason newURL (existingIndex newURL nw st) email
                     = Some (''URL ya existe en BD: '' @ n)"
    unfolding existingIndex_indexOf by (rule duplicateReason_url)
next
  assume "\<not> isUrlDuplicateOf newURL nw (dbInstance st) (urls email) \<and> fileName email \<noteq> []"
  then show "duplicateReason newURL (existingIndex newURL nw st) email
              = (if fileName email \<in> fileNamesOf (dbInstance st)
                 then Some (''fileName ya existe en BD: '' @ fileName email) else None)"
    unfolding existingIndex_indexOf by (intro duplicateReason_fileName) simp_all
next
  assume h: "fileName a \<noteq> [] \<and> \<not> isDuplicateOf newURL nw (dbInstance st) a
        \<and> uA \<in> set (urls a) \<and> uB \<in> set (urls b)
        \<and> normalizeUrl newURL uA = normalizeUrl newURL uB \<and> normalizeUrl newURL uB \<noteq> []"
  then have dup: "isDuplicateOf newURL nw (appendEmail a (dbInstance st)) b"
    by (intro second_is_duplicate [where uA = uA and uB = uB]) simp_all
  from h dup show "dbInstance (snd (saveToDb newURL nw p [a, b] st)) = appendEmail a (dbInstance st)"
    by (simp add: saveToDb_appendAll)
  from h dup show "dbInstance (snd (saveToDb newURL nw p2 [b] (snd (saveToDb newURL nw p1 [a] st))))
                = appendEmail a (dbInstance st)"
    by (simp add: saveToDb_appendAll)
qed

text \<open>
  C10, as the code has it. A call that holds a record without \<open>fileName\<close> leaves the table
  that its other records leave: each of them that is no duplicate is appended, with its
  six columns. If a row was added, the table is then written to IndexedDB; when that
  write succeeds the call throws the \<open>Error\<close> that lists the records without \<open>fileName\<close>,
  and when it fails the call throws the \<open>Error\<close> of the write instead, nothing is written,
  and the rows are in the table in memory only. If no row was added nothing is written
  and the \<open>Error\<close> is the list.
\<close>

theorem saveToDb_partial_failure:
  assumes "\<exists>e\<in>set emails. fileName e = []"
  shows "dbInstance (snd (saveToDb newURL nw putError emails st))
           = appendAll newURL nw (filter (\<lambda>e. fileName e \<noteq> []) emails) (dbInstance st)
       \<and> fst (saveToDb newURL nw putError emails st)
           = (case putError of
                None \<Rightarrow> Some (''Errores guardando algunos emails: ''
                               @ joinWith ''; '' (invalidMessages 0 emails))
              | Some msg \<Rightarrow>
                  if rows (dbInstance (snd (saveToDb newURL nw putError emails st))) \<noteq> rows (dbInstance st)
                  then Some (''Error guardando en almacenamiento: '' @ msg)
                  else Some (''Errores guardando algunos emails: ''
                             @ joinWith ''; '' (invalidMessages 0 emails)))
       \<and> main_db (snd (saveToDb newURL nw putError emails st))
           = (if rows (dbInstance (snd (saveToDb newURL nw putError emails st))) \<noteq> rows (dbInstance st)
                 \<and> putError = None
              then Some (dbInstance (snd (saveToDb newURL nw putError emails st)))
              else main_db st)"
proof -
  from assms have ne: "emails \<noteq> []" by auto
  note inv = invalidMessages_nonempty [OF assms, of 0]
  note out = saveToDb_outcome [OF ne, of newURL nw putError st]
  have 1: "dbInstance (snd (saveToDb newURL nw putError emails st))
           = appendAll newURL nw (filter (\<lambda>e. fileName e \<noteq> []) emails) (dbInstance st)"
    unfolding appendAll_valid by (rule saveToDb_appendAll)
  have d: "dbInstance (snd (saveToDb newURL nw putError emails st)) = appendAll newURL nw emails (dbInstance st)"
    by (rule saveToDb_appendAll)
  have 2: "fst (saveToDb newURL nw putError emails st)
           = (case putError of
                None \<Rightarrow> Some (''Errores guardando algunos emails: ''
                               @ joinWith ''; '' (invalidMessages 0 emails))
              | Some msg \<Rightarrow>
                  if rows (dbInstance (snd (saveToDb newURL nw putError emails st))) \<noteq> rows (dbInstance st)
                  then Some (''Error guardando en almacenamiento: '' @ msg)
                  else Some (''Errores guardando algunos emails: ''
                             @ joinWith ''; '' (invalidMessages 0 emails)))"
    unfolding d unfolding out rows_appendAll_changed using inv by (simp split: option.splits)
  have 3: "main_db (snd (saveToDb newURL nw putError emails st))
           = (if rows (dbInstance (snd (saveToDb newURL nw putError emails st))) \<noteq> rows (dbInstance st)
                 \<and> putError = None
              then Some (dbInstance (snd (saveToDb newURL nw putError emails st)))
              else main_db st)"
    unfolding d unfolding out rows_appendAll_changed by (simp split: option.splits)
  from 1 2 3 show ?thesis by (intro conjI)
qed

subsection \<open>Sample calls\<close>

text \<open>
  C1, as the code has it, from the empty table: a post saved under one file name and then
  met again under another name, through the other host and with a tracking parameter; and
  against the table that the first record leaves, a record that repeats both its URL and
  its file name, and one that repeats its file name only.
\<close>

theorem saveToDb_duplicate_decision_witness:
  "rows (dbInstance (snd (saveToDb newURL_http (\<lambda>w. None) None
      [sampleEmail ''a.eml'' [''https://x.com/u/status/1''],
       sampleEmail ''b.eml'' [''https://twitter.com/u/status/1?s=20'']] emptyStore)))
     = [\<lparr>col_id = 1, col_fileName = Some ''a.eml'', col_fechaEnvio = Some ''2025-11-29 07:50:00'',
         col_tematica = Some ''IA'', col_etiquetas = Some (JSON_stringify [''ia'']),
         col_contenido = Some ''<p>x</p>'',
         col_urls = Some (JSON_stringify [''https://x.com/u/status/1''])\<rparr>]
   \<and> rows (dbInstance (snd (saveToDb newURL_http (\<lambda>w. None) None
      [sampleEmail ''b.eml'' [''https://twitter.com/u/status/1?s=20'']]
      (snd (saveToDb newURL_http (\<lambda>w. None) None
         [sampleEmail ''a.eml'' [''https://x.com/u/status/1'']] emptyStore)))))
     = [\<lparr>col_id = 1, col_fileName = Some ''a.eml'', col_fechaEnvio = Some ''2025-11-29 07:50:00'',
         col_tematica = Some ''IA'', col_etiquetas = Some (JSON_stringify [''ia'']),
         col_contenido = Some ''<p>x</p>'',
         col_urls = Some (JSON_stringify [''https://x.com/u/status/1''])\<rparr>]
   \<and> duplicateReason newURL_http
        (existingIndex newURL_http (\<lambda>w. None)
           (snd (saveToDb newURL_http (\<lambda>w. None) None
              [sampleEmail ''a.eml'' [''https://x.com/u/status/1'']] emptyStore)))
        (sampleEmail ''a.eml'' [''https://twitter.com/u/status/1?s=20''])
     = Some ''URL ya existe en BD: https://x.com/u/status/1''
   \<and> duplicateReason newURL_http
        (existingIndex newURL_http (\<lambda>w. None)
           (snd (saveToDb newURL_http (\<lambda>w. None) None
              [sampleEmail ''a.eml'' [''https://x.com/u/status/1'']] emptyStore)))
        (sampleEmail ''a.eml'' [''https://example.com/page''])
     = Some ''fileName ya existe en BD: a.eml''"
proof -
  let ?a = "sampleEmail ''a.eml'' [''https://x.com/u/status/1'']"
  let ?b = "sampleEmail ''b.eml'' [''https://twitter.com/u/status/1?s=20'']"
  let ?nw = "\<lambda>w::nat list. None :: string option"
  let ?st = "snd (saveToDb newURL_http ?nw None [?a] emptyStore)"
  let ?row = "\<lparr>col_id = 1, col_fileName = Some ''a.eml'', col_fechaEnvio = Some ''2025-11-29 07:50:00'',
         col_tematica = Some ''IA'', col_etiquetas = Some (JSON_stringify [''ia'']),
         col_contenido = Some ''<p>x</p>'',
         col_urls = Some (JSON_stringify [''https://x.com/u/status/1''])\<rparr>"
  have h: "fileName ?a \<noteq> [] \<and> \<not> isDuplicateOf newURL_http ?nw (dbInstance emptyStore) ?a
      \<and> ''https://x.com/u/status/1'' \<in> set (urls ?a)
      \<and> ''https://twitter.com/u/status/1?s=20'' \<in> set (urls ?b)
      \<and> normalizeUrl newURL_http ''https://x.com/u/status/1''
          = normalizeUrl newURL_http ''https://twitter.com/u/status/1?s=20''
      \<and> normalizeUrl newURL_http ''https://twitter.com/u/status/1?s=20'' \<noteq> []"
    by code_simp
  have r: "rows (appendEmail ?a (dbInstance emptyStore)) = [?row]"
    by (simp add: appendEmail_def emailRow_def emptyStore_def initTable_def nextRowid_def sampleEmail_def)
  note t = saveToDb_duplicate_decision [where newURL = newURL_http and nw = ?nw and st = emptyStore
      and a = ?a and b = ?b and uA = "''https://x.com/u/status/1''"
      and uB = "''https://twitter.com/u/status/1?s=20''" and p = None and ?p1.0 = None and ?p2.0 = None]
  from t h have 1: "dbInstance (snd (saveToDb newURL_http ?nw None [?a, ?b] emptyStore))
      = appendEmail ?a (dbInstance emptyStore)"
    by blast
  from t h have 2: "dbInstance (snd (saveToDb newURL_http ?nw None [?b] ?st))
      = appendEmail ?a (dbInstance emptyStore)"
    by blast
  have 3: "duplicateReason newURL_http (existingIndex newURL_http ?nw ?st)
        (sampleEmail ''a.eml'' [''https://twitter.com/u/status/1?s=20''])
     = Some ''URL ya existe en BD: https://x.com/u/status/1''"
    by code_simp
  have 4: "duplicateReason newURL_http (existingIndex newURL_http ?nw ?st)
        (sampleEmail ''a.eml'' [''https://example.com/page''])
     = Some ''fileName ya existe en BD: a.eml''"
    by code_simp
  show ?thesis unfolding 1 2 r using 3 4 by simp
qed

text \<open>
  C1, as stated, fails: the normalization of the URL of the second record is a URL of the
  first record as stored, and the second record is appended all the same, since the
  normalization is looked up among the normalizations only.
\<close>

theorem normalized_url_not_sought_among_stored_urls:
  "normalizeUrl newURL_http ''https://twitter.com:443/user/status/1''
     = ''https://twitter.com/user/status/1''
   \<and> map col_urls (rows (dbInstance (snd (saveToDb newURL_http (\<lambda>w. None) None
        [sampleEmail ''b.eml'' [''https://twitter.com:443/user/status/1'']]
        (snd (saveToDb newURL_http (\<lambda>w. None) None
           [sampleEmail ''a.eml'' [''https://twitter.com/user/status/1'']] emptyStore))))))
     = [Some (JSON_stringify [''https://twitter.com/user/status/1'']),
        Some (JSON_stringify [''https://twitter.com:443/user/status/1''])]"
  by code_simp

text \<open>
  C10, as the code has it, with the write succeeding: of three records the second has no
  \<open>fileName\<close>; the first and the third are in the table and in IndexedDB, and the \<open>Error\<close>
  lists the second.
\<close>

theorem saveToDb_partial_failure_witness:
  "map (\<lambda>r. (col_id r, col_fileName r, col_tematica r, col_urls r))
     (rows (dbInstance (snd (saveToDb newURL_http (\<lambda>w. None) None
        [sampleEmail ''a.eml'' [''https://x.com/u/status/1''], sampleEmail [] [],
         sampleEmail ''c.eml'' []] emptyStore))))
     = [(1, Some ''a.eml'', Some ''IA'', Some (JSON_stringify [''https://x.com/u/status/1''])),
        (2, Some ''c.eml'', Some ''IA'', Some (JSON_stringify []))]
   \<and> fst (saveToDb newURL_http (\<lambda>w. None) None
        [sampleEmail ''a.eml'' [''https://x.com/u/status/1''], sampleEmail [] [],
         sampleEmail ''c.eml'' []] emptyStore)
     = Some ''Errores guardando algunos emails: Email 2: fileName faltante''
   \<and> main_db (snd (saveToDb newURL_http (\<lambda>w. None) None
        [sampleEmail ''a.eml'' [''https://x.com/u/status/1''], sampleEmail [] [],
         sampleEmail ''c.eml'' []] emptyStore))
     = Some (dbInstance (snd (saveToDb newURL_http (\<lambda>w. None) None
        [sampleEmail ''a.eml'' [''https://x.com/u/status/1''], sampleEmail [] [],
         sampleEmail ''c.eml'' []] emptyStore)))"
proof -
  let ?emails = "[sampleEmail ''a.eml'' [''https://x.com/u/status/1''], sampleEmail [] [],
         sampleEmail ''c.eml'' []]"
  let ?nw = "\<lambda>w::nat list. None :: string option"
  let ?st = "snd (saveToDb newURL_http ?nw None ?emails emptyStore)"
  have bad: "\<exists>e\<in>set ?emails. fileName e = []"
    by (simp add: sampleEmail_def)
  note t = saveToDb_partial_failure [OF bad, of newURL_http ?nw None emptyStore]
  have v: "map (\<lambda>r. (col_id r, col_fileName r, col_tematica r, col_urls r))
       (rows (appendAll newURL_http ?nw (filter (\<lambda>e. fileName e \<noteq> []) ?emails) (dbInstance emptyStore)))
     = [(1, Some ''a.eml'', Some ''IA'', Some (JSON_stringify [''https://x.com/u/status/1''])),
        (2, Some ''c.eml'', Some ''IA'', Some (JSON_stringify []))]"
    by code_simp
  have m: "invalidMessages 0 ?emails = [''Email 2: fileName faltante'']"
    by code_simp
  have r0: "rows (dbInstance emptyStore) = []"
    by (simp add: emptyStore_def initTable_def)
  from t have d: "dbInstance ?st
      = appendAll newURL_http ?nw (filter (\<lambda>e. fileName e \<noteq> []) ?emails) (dbInstance emptyStore)"
    by (rule conjunct1)
  have 1: "map (\<lambda>r. (col_id r, col_fileName r, col_tematica r, col_urls r)) (rows (dbInstance ?st))
     = [(1, Some ''a.eml'', Some ''IA'', Some (JSON_stringify [''https://x.com/u/status/1''])),
        (2, Some ''c.eml'', Some ''IA'', Some (JSON_stringify []))]"
    unfolding d by (rule v)
  then have ch: "rows (dbInstance ?st) \<noteq> rows (dbInstance emptyStore)"
    unfolding r0 by auto
  from t have 2: "fst (saveToDb newURL_http ?nw None ?emails emptyStore)
     = Some ''Errores guardando algunos emails: Email 2: fileName faltante''"
    unfolding m by simp
  from t ch have 3: "main_db ?st = Some (dbInstance ?st)"
    by simp
  from 1 2 3 show ?thesis by (intro conjI)
qed

text \<open>
  C10, as stated, fails when the write to IndexedDB fails: the two records with a
  \<open>fileName\<close> are in the table in memory, nothing is in IndexedDB, and the \<open>Error\<close> thrown
  is that of the write, which does not list the record without \<open>fileName\<close>.
\<close>

theorem saveToDb_write_failure_hides_list:
  "map col_fileName (rows (dbInstance (snd (saveToDb newURL_http (\<lambda>w. None) (Some ''QuotaExceededError'')
      [sampleEmail ''a.eml'' [''https://x.com/u/status/1''], sampleEmail [] [],
       sampleEmail ''c.eml'' []] emptyStore))))
     = [Some ''a.eml'', Some ''c.eml'']
   \<and> main_db (snd (saveToDb newURL_http (\<lambda>w. None) (Some ''QuotaExceededError'')
      [sampleEmail ''a.eml'' [''https://x.com/u/status/1''], sampleEmail [] [],
       sampleEmail ''c.eml'' []] emptyStore)) = None
   \<and> fst (saveToDb newURL_http (\<lambda>w. None) (Some ''QuotaExceededError'')
      [sampleEmail ''a.eml'' [''https://x.com/u/status/1''], sampleEmail [] [],
       sampleEmail ''c.eml'' []] emptyStore)
     = Some ''Error guardando en almacenamiento: QuotaExceededError''"
  by code_simp

text \<open>
  C8, on a table whose only row holds text in \<open>etiquetas\<close> that is not JSON:
  \<open>getAllEmails\<close> throws what \<open>JSON.parse\<close> throws, and returns no list.
\<close>

theorem getAllEmails_malformed_json_throws:
  "getAllEmails \<lparr>dbInstance =
      \<lparr>rows = [\<lparr>col_id = 1, col_fileName = Some ''a.eml'', col_fechaEnvio = Some ''2025-11-29 07:50:00'',
                 col_tematica = Some ''IA'', col_etiquetas = Some ''[ia, python]'',
                 col_contenido = Some ''<p>x</p>'', col_urls = Some ''[]''\<rparr>],
       lastRowid = 1\<rparr>,
     main_db = None\<rparr> = Inl ''SyntaxError''"
  by code_simp

text \<open>An escape above \<open>00ff\<close> is read as the code unit it names.\<close>

lemma JSON_parse_wide_escape:
  "JSON_parse (''['' @ [dquote] @ ''http://a/'' @ [backslash] @ ''u0100'' @ [dquote] @ '']'')
     = Inr (JArray [JString (units ''http://a/'' @ [256])])"
  by code_simp

section \<open>Properties of the enrichment client\<close>

lemma geometric_shift:
  fixes d :: rat
  assumes "a < n"
  shows "d # map (\<lambda>j. d * (3 / 2) * (3 / 2) ^ j) [0..<n - Suc a] = map (\<lambda>j. d * (3 / 2) ^ j) [0..<n - a]"
proof -
  from assms have n: "n - a = Suc (n - Suc a)" by simp
  have "[0..<Suc (n - Suc a)] = 0 # [Suc 0..<Suc (n - Suc a)]"
    by (rule upt_conv_Cons) simp
  also have "[Suc 0..<Suc (n - Suc a)] = map Suc [0..<n - Suc a]"
    by (rule map_Suc_upt [symmetric])
  finally have "[0..<Suc (n - Suc a)] = 0 # map Suc [0..<n - Suc a]" .
  then show ?thesis unfolding n by (simp add: comp_def del: upt_Suc)
qed

lemma retryLoop_waits_attempts:
  assumes "1 \<le> attempt" "attempt \<le> maxAttempts"
  shows "attempt \<le> attempts (retryLoop tryBlock quota failure unknown attempt delay waited)
       \<and> attempts (retryLoop tryBlock quota failure unknown attempt delay waited) \<le> maxAttempts
       \<and> waits (retryLoop tryBlock quota failure unknown attempt delay waited)
           = waited @ map (\<lambda>j. delay * (3 / 2) ^ j)
               [0..<attempts (retryLoop tryBlock quota failure unknown attempt delay waited) - attempt]"
  using assms
proof (induction tryBlock quota failure unknown attempt delay waited rule: retryLoop.induct)
  case (1 tryBlock quota failure unknown attempt delay waited)
  define r where "r = retryLoop tryBlock quota failure unknown (attempt + 1) (delay * (3 / 2)) (waited @ [delay])"
  have retry: "attempt \<le> attempts r \<and> attempts r \<le> maxAttempts
      \<and> waits r = waited @ map (\<lambda>j. delay * (3 / 2) ^ j) [0..<attempts r - attempt]"
    if ih: "attempt + 1 \<le> attempts r \<and> attempts r \<le> maxAttempts
       \<and> waits r = (waited @ [delay]) @ map (\<lambda>j. delay * (3 / 2) * (3 / 2) ^ j) [0..<attempts r - (attempt + 1)]"
  proof -
    from ih have lt: "attempt < attempts r" by simp
    from ih have "waits r = waited @ delay # map (\<lambda>j. delay * (3 / 2) * (3 / 2) ^ j) [0..<attempts r - Suc attempt]"
      by simp
    also have "\<dots> = waited @ map (\<lambda>j. delay * (3 / 2) ^ j) [0..<attempts r - attempt]"
      by (simp only: geometric_shift [OF lt])
    finally show ?thesis using ih by simp
  qed
  show ?case
  proof (cases "tryBlock attempt")
    case (Inr p)
    with "1.prems" show ?thesis by (simp add: retryLoop.simps [of _ _ _ _ attempt])
  next
    case (Inl e)
    show ?thesis
    proof (cases "attempt < maxAttempts")
      case True
      have "attempt + 1 \<le> attempts r \<and> attempts r \<le> maxAttempts
         \<and> waits r = (waited @ [delay]) @ map (\<lambda>j. delay * (3 / 2) * (3 / 2) ^ j) [0..<attempts r - (attempt + 1)]"
      proof (cases "isTransient e")
        case T: True
        show ?thesis unfolding r_def using "1.IH"(1) [OF "1.prems"(2) Inl T True] True by simp
      next
        case F: False
        show ?thesis unfolding r_def using "1.IH"(2) [OF "1.prems"(2) Inl F] True by simp
      qed
      from retry [OF this] have "attempt \<le> attempts r \<and> attempts r \<le> maxAttempts
        \<and> waits r = waited @ map (\<lambda>j. delay * (3 / 2) ^ j) [0..<attempts r - attempt]" .
      moreover have "retryLoop tryBlock quota failure unknown attempt delay waited = r"
        using Inl True "1.prems" unfolding r_def by (simp add: retryLoop.simps [of _ _ _ _ attempt])
      ultimately show ?thesis by simp
    next
      case False
      with "1.prems" have "attempt = maxAttempts" by simp
      with Inl show ?thesis by (simp add: retryLoop.simps [of _ _ _ _ maxAttempts])
    qed
  qed
qed

lemma retryLoop_all_transient:
  assumes "\<forall>k. attempt \<le> k \<and> k \<le> maxAttempts \<longrightarrow> (\<exists>e. tryBlock k = Inl e \<and> isTransient e)"
    and "attempt \<le> maxAttempts"
  shows "result (retryLoop tryBlock quota failure unknown attempt delay waited) = quota
       \<and> attempts (retryLoop tryBlock quota failure unknown attempt delay waited) = maxAttempts"
  using assms
proof (induction tryBlock quota failure unknown attempt delay waited rule: retryLoop.induct)
  case (1 tryBlock quota failure unknown attempt delay waited)
  from "1.prems" obtain e where e: "tryBlock attempt = Inl e" "isTransient e" by auto
  show ?case
  proof (cases "attempt < maxAttempts")
    case True
    have "result (retryLoop tryBlock quota failure unknown (attempt + 1) (delay * (3 / 2)) (waited @ [delay])) = quota
       \<and> attempts (retryLoop tryBlock quota failure unknown (attempt + 1) (delay * (3 / 2)) (waited @ [delay])) = maxAttempts"
      using "1.IH"(1) [OF "1.prems"(2) e True] "1.prems"(1) True by simp
    with e True show ?thesis by (simp add: retryLoop.simps [of _ _ _ _ attempt])
  next
    case False
    with "1.prems" have "attempt = maxAttempts" by simp
    with e show ?thesis by (simp add: retryLoop.simps [of _ _ _ _ maxAttempts])
  qed
qed

lemma retryLoop_all_failing:
  assumes "\<forall>k. attempt \<le> k \<and> k \<le> maxAttempts \<longrightarrow> (\<exists>e. tryBlock k = Inl e \<and> \<not> isTransient e)"
    and "attempt \<le> maxAttempts"
  shows "(\<exists>e. tryBlock maxAttempts = Inl e
           \<and> result (retryLoop tryBlock quota failure unknown attempt delay waited) = failure e)
       \<and> attempts (retryLoop tryBlock quota failure unknown attempt delay waited) = maxAttempts"
  using assms
proof (induction tryBlock quota failure unknown attempt delay waited rule: retryLoop.induct)
  case (1 tryBlock quota failure unknown attempt delay waited)
  from "1.prems" obtain e where e: "tryBlock attempt = Inl e" "\<not> isTransient e" by auto
  show ?case
  proof (cases "attempt = maxAttempts")
    case True
    with e show ?thesis by (simp add: retryLoop.simps [of _ _ _ _ maxAttempts])
  next
    case False
    with "1.prems" have lt: "attempt < maxAttempts" by simp
    have "(\<exists>e. tryBlock maxAttempts = Inl e
           \<and> result (retryLoop tryBlock quota failure unknown (attempt + 1) (delay * (3 / 2)) (waited @ [delay])) = failure e)
       \<and> attempts (retryLoop tryBlock quota failure unknown (attempt + 1) (delay * (3 / 2)) (waited @ [delay])) = maxAttempts"
      using "1.IH"(2) [OF "1.prems"(2) e False] "1.prems"(1) lt by simp
    with e False lt show ?thesis by (simp add: retryLoop.simps [of _ _ _ _ attempt])
  qed
qed

lemma retryLoop_policy:
  fixes tryBlock quota failure unknown
  defines "r \<equiv> retryLoop tryBlock quota failure unknown 1 10000 []"
  shows "1 \<le> attempts r \<and> attempts r \<le> 5
       \<and> waits r = map (\<lambda>j. 10000 * (3 / 2) ^ j) [0..<attempts r - 1]
       \<and> ((\<forall>k. 1 \<le> k \<and> k \<le> 5 \<longrightarrow> (\<exists>e. tryBlock k = Inl e \<and> isTransient e))
            \<longrightarrow> attempts r = 5 \<and> result r = quota)
       \<and> ((\<forall>k. 1 \<le> k \<and> k \<le> 5 \<longrightarrow> (\<exists>e. tryBlock k = Inl e \<and> \<not> isTransient e))
            \<longrightarrow> attempts r = 5 \<and> (\<exists>e. tryBlock 5 = Inl e \<and> result r = failure e))"
proof -
  have m: "maxAttempts = 5" by (simp add: maxAttempts_def)
  have a: "1 \<le> attempts r \<and> attempts r \<le> 5
      \<and> waits r = map (\<lambda>j. 10000 * (3 / 2) ^ j) [0..<attempts r - 1]"
    using retryLoop_waits_attempts [of 1 tryBlock quota failure unknown 10000 "[]"]
    unfolding r_def m by simp
  have t: "attempts r = 5 \<and> result r = quota"
    if "\<forall>k. 1 \<le> k \<and> k \<le> 5 \<longrightarrow> (\<exists>e. tryBlock k = Inl e \<and> isTransient e)"
    using retryLoop_all_transient [of 1 tryBlock quota failure unknown 10000 "[]"] that
    unfolding r_def m by simp
  have f: "attempts r = 5 \<and> (\<exists>e. tryBlock 5 = Inl e \<and> result r = failure e)"
    if "\<forall>k. 1 \<le> k \<and> k \<le> 5 \<longrightarrow> (\<exists>e. tryBlock k = Inl e \<and> \<not> isTransient e)"
    using retryLoop_all_failing [of 1 tryBlock quota failure unknown 10000 "[]"] that
    unfolding r_def m by simp
  from a t f show ?thesis by blast
qed

lemma retryLoop_topics:
  fixes tryBlock quota failure unknown
  defines "r \<equiv> retryLoop tryBlock quota failure unknown 1 10000 []"
  assumes q: "AnalysisResult.tematica quota = topicQuota"
    and f: "\<And>e. AnalysisResult.tematica (failure e) = topicFailure"
  shows "1 \<le> attempts r \<and> attempts r \<le> 5
       \<and> waits r = map (\<lambda>j. 10000 * (3 / 2) ^ j) [0..<attempts r - 1]
       \<and> ((\<forall>k. 1 \<le> k \<and> k \<le> 5 \<longrightarrow> (\<exists>e. tryBlock k = Inl e \<and> isTransient e))
            \<longrightarrow> attempts r = 5 \<and> AnalysisResult.tematica (result r) = topicQuota)
       \<and> ((\<forall>k. 1 \<le> k \<and> k \<le> 5 \<longrightarrow> (\<exists>e. tryBlock k = Inl e \<and> \<not> isTransient e))
            \<longrightarrow> attempts r = 5 \<and> AnalysisResult.tematica (result r) = topicFailure)"
proof -
  note p = retryLoop_policy [of tryBlock quota failure unknown, folded r_def]
  have "attempts r = 5 \<and> AnalysisResult.tematica (result r) = topicQuota"
    if "\<forall>k. 1 \<le> k \<and> k \<le> 5 \<longrightarrow> (\<exists>e. tryBlock k = Inl e \<and> isTransient e)"
    using p that q by simp
  moreover have "attempts r = 5 \<and> AnalysisResult.tematica (result r) = topicFailure"
    if "\<forall>k. 1 \<le> k \<and> k \<le> 5 \<longrightarrow> (\<exists>e. tryBlock k = Inl e \<and> \<not> isTransient e)"
  proof -
    from p that obtain e where "attempts r = 5" "result r = failure e" by blast
    then show ?thesis by (simp add: f)
  qed
  ultimately show ?thesis using p by blast
qed

text \<open>
  C5. Both entry points, given an API key, return a value and do not throw. They make at
  least one and at most five attempts. Between two consecutive attempts they wait; the
  \<open>j\<close>-th delay is 10000 ms times 1.5 to the power \<open>j\<close> (\<open>j\<close> from 0), and nothing caps
  it. When every attempt fails with a transient error, five attempts are made and the
  value returned has the topic \<open>Error Cuota API\<close>; when every attempt fails with an error
  that is not transient, five attempts are made and it has the topic of the generic
  failure.
\<close>

theorem retry_policy:
  assumes "apiKey \<noteq> None" "apiKey \<noteq> Some []"
  shows "(\<exists>r. analyzeEmailContent apiKey tryBlock emailData = Inr r
            \<and> 1 \<le> attempts r \<and> attempts r \<le> 5
            \<and> waits r = map (\<lambda>j. 10000 * (3 / 2) ^ j) [0..<attempts r - 1]
            \<and> ((\<forall>k. 1 \<le> k \<and> k \<le> 5 \<longrightarrow> (\<exists>e. tryBlock k = Inl e \<and> isTransient e))
                 \<longrightarrow> attempts r = 5 \<and> AnalysisResult.tematica (result r) = topicQuota)
            \<and> ((\<forall>k. 1 \<le> k \<and> k \<le> 5 \<longrightarrow> (\<exists>e. tryBlock k = Inl e \<and> \<not> isTransient e))
                 \<longrightarrow> attempts r = 5 \<and> AnalysisResult.tematica (result r) = topicFailure))
       \<and> (\<exists>r. analyzeUrlContent apiKey now tryBlock' url = Inr r
            \<and> 1 \<le> attempts r \<and> attempts r \<le> 5
            \<and> waits r = map (\<lambda>j. 10000 * (3 / 2) ^ j) [0..<attempts r - 1]
            \<and> ((\<forall>k. 1 \<le> k \<and> k \<le> 5 \<longrightarrow> (\<exists>e. tryBlock' k = Inl e \<and> isTransient e))
                 \<longrightarrow> attempts r = 5 \<and> AnalysisResult.tematica (result r) = topicQuota)
            \<and> ((\<forall>k. 1 \<le> k \<and> k \<le> 5 \<longrightarrow> (\<exists>e. tryBlock' k = Inl e \<and> \<not> isTransient e))
                 \<longrightarrow> attempts r = 5 \<and> AnalysisResult.tematica (result r) = topicFailure))"
proof -
  have key: "initGemini apiKey = Inr ()" using assms by (simp add: initGemini_def)
  show ?thesis
  proof (rule conjI)
    show "\<exists>r. analyzeEmailContent apiKey tryBlock emailData = Inr r
            \<and> 1 \<le> attempts r \<and> attempts r \<le> 5
            \<and> waits r = map (\<lambda>j. 10000 * (3 / 2) ^ j) [0..<attempts r - 1]
            \<and> ((\<forall>k. 1 \<le> k \<and> k \<le> 5 \<longrightarrow> (\<exists>e. tryBlock k = Inl e \<and> isTransient e))
                 \<longrightarrow> attempts r = 5 \<and> AnalysisResult.tematica (result r) = topicQuota)
            \<and> ((\<forall>k. 1 \<le> k \<and> k \<le> 5 \<longrightarrow> (\<exists>e. tryBlock k = Inl e \<and> \<not> isTransient e))
                 \<longrightarrow> attempts r = 5 \<and> AnalysisResult.tematica (result r) = topicFailure)"
      unfolding analyzeEmailContent_def key sum.case
      by (rule exI, rule conjI, rule refl, rule retryLoop_topics) simp_all
    show "\<exists>r. analyzeUrlContent apiKey now tryBlock' url = Inr r
            \<and> 1 \<le> attempts r \<and> attempts r \<le> 5
            \<and> waits r = map (\<lambda>j. 10000 * (3 / 2) ^ j) [0..<attempts r - 1]
            \<and> ((\<forall>k. 1 \<le> k \<and> k \<le> 5 \<longrightarrow> (\<exists>e. tryBlock' k = Inl e \<and> isTransient e))
                 \<longrightarrow> attempts r = 5 \<and> AnalysisResult.tematica (result r) = topicQuota)
            \<and> ((\<forall>k. 1 \<le> k \<and> k \<le> 5 \<longrightarrow> (\<exists>e. tryBlock' k = Inl e \<and> \<not> isTransient e))
                 \<longrightarrow> attempts r = 5 \<and> AnalysisResult.tematica (result r) = topicFailure)"
      unfolding analyzeUrlContent_def key sum.case
      by (rule exI, rule conjI, rule refl, rule retryLoop_topics) simp_all
  qed
qed

theorem retry_policy_witness:
  "map_sum id (\<lambda>r. (AnalysisResult.tematica (result r), attempts r, waits r))
     (analyzeEmailContent (Some ''key'') (\<lambda>k. Inl rateLimited) sampleRaw)
     = Inr (''Error Cuota API'', 5, [10000, 15000, 22500, 33750])
   \<and> map_sum id (\<lambda>r. (AnalysisResult.tematica (result r), attempts r, waits r))
     (analyzeUrlContent (Some ''key'') ''2025-11-29 07:50:00'' (\<lambda>k. Inl noResponse) ''https://example.com/'')
     = Inr (topicFailure, 5, [10000, 15000, 22500, 33750])"
proof -
  have t: "\<forall>k::nat. 1 \<le> k \<and> k \<le> 5 \<longrightarrow> (\<exists>e. (\<lambda>k. Inl rateLimited :: ApiError + AnalysisResult) k = Inl e \<and> isTransient e)"
    by (simp add: isTransient_def rateLimited_def)
  have f: "\<forall>k::nat. 1 \<le> k \<and> k \<le> 5 \<longrightarrow> (\<exists>e. (\<lambda>k. Inl noResponse :: ApiError + AnalysisResult) k = Inl e \<and> \<not> isTransient e)"
    by (simp add: isTransient_def noResponse_def)
  have w: "map (\<lambda>j. 10000 * (3 / 2) ^ j) [0..<5 - 1] = [10000, 15000, 22500, 33750 :: rat]"
    by code_simp
  note rp = retry_policy [of "Some ''key''" "\<lambda>k. Inl rateLimited" sampleRaw
      "''2025-11-29 07:50:00''" "\<lambda>k. Inl noResponse" "''https://example.com/''"]
  have k: "Some ''key'' \<noteq> None" "Some ''key'' \<noteq> Some []" by simp_all
  from rp [OF k, THEN conjunct1] obtain r1 where
    r1: "analyzeEmailContent (Some ''key'') (\<lambda>k. Inl rateLimited) sampleRaw = Inr r1"
      "waits r1 = map (\<lambda>j. 10000 * (3 / 2) ^ j) [0..<attempts r1 - 1]"
      and i1: "(\<forall>k::nat. 1 \<le> k \<and> k \<le> 5 \<longrightarrow> (\<exists>e. (\<lambda>k. Inl rateLimited :: ApiError + AnalysisResult) k = Inl e \<and> isTransient e))
         \<longrightarrow> attempts r1 = 5 \<and> AnalysisResult.tematica (result r1) = topicQuota"
    by blast
  from rp [OF k, THEN conjunct2] obtain r2 where
    r2: "analyzeUrlContent (Some ''key'') ''2025-11-29 07:50:00'' (\<lambda>k. Inl noResponse) ''https://example.com/'' = Inr r2"
      "waits r2 = map (\<lambda>j. 10000 * (3 / 2) ^ j) [0..<attempts r2 - 1]"
      and i2: "(\<forall>k::nat. 1 \<le> k \<and> k \<le> 5 \<longrightarrow> (\<exists>e. (\<lambda>k. Inl noResponse :: ApiError + AnalysisResult) k = Inl e \<and> \<not> isTransient e))
         \<longrightarrow> attempts r2 = 5 \<and> AnalysisResult.tematica (result r2) = topicFailure"
    by blast
  from i1 t have a1: "attempts r1 = 5" "AnalysisResult.tematica (result r1) = topicQuota" by blast+
  from i2 f have a2: "attempts r2 = 5" "AnalysisResult.tematica (result r2) = topicFailure" by blast+
  from r1(2) w have "waits r1 = [10000, 15000, 22500, 33750]" unfolding a1 by simp
  moreover from r2(2) w have "waits r2 = [10000, 15000, 22500, 33750]" unfolding a2 by simp
  ultimately show ?thesis by (simp add: r1(1) r2(1) a1 a2 topicQuota_def)
qed

section \<open>Properties of the ingestion pipeline\<close>

subsection \<open>When nobody presses stop\<close>

lemma awaiting_quiet [simp]: "quiet env \<Longrightarrow> awaiting env i a s = s"
  by (simp add: quiet_def awaiting_def)

lemma pacingPause_quiet: "quiet env \<Longrightarrow> pacingPause env i s = s"
proof -
  assume q: "quiet env"
  have "foldl (\<lambda>s delayCount. if isProcessingCancelled s then s else awaiting env i (Sleeping delayCount) s) s ds = s" for ds
    by (induction ds) (simp_all add: q)
  then show ?thesis by (simp add: pacingPause_def)
qed

lemma saveAndReload_quiet:
  assumes "quiet env"
  shows "trace (snd (saveAndReload env i records s)) = trace s @ [Persist i records]"
    and "isProcessingCancelled (snd (saveAndReload env i records s)) = isProcessingCancelled s"
    and "statusState (snd (saveAndReload env i records s)) = statusState s"
    and "storeState (snd (saveAndReload env i records s))
         = snd (saveToDb (env_newURL env) (env_normalizeWide env) (env_putError env i) records (storeState s))"
  using assms
  by (simp_all add: saveAndReload_def Let_def logEvent_def split: option.splits sum.splits)

lemma topics_differ: "topicQuota \<noteq> topicFailure"
  by (simp add: topicQuota_def topicFailure_def)

lemma catchFileError_quiet:
  assumes "quiet env"
  shows "\<exists>s'. catchFileError env fs i message (results, errs, s)
           = (results @ [errorEmailOf env i (fs ! i) message],
              errs @ [''Error procesando '' @ name (fs ! i) @ '': '' @ orStr message ''Error desconocido''], s')
         \<and> trace s' = trace s @ [Persist i [errorEmailOf env i (fs ! i) message]]
         \<and> isProcessingCancelled s' = isProcessingCancelled s
         \<and> statusState s' = statusState s
         \<and> storeState s' = snd (saveToDb (env_newURL env) (env_normalizeWide env) (env_putError env i)
                                   [errorEmailOf env i (fs ! i) message] (storeState s))"
  using assms by (simp add: catchFileError_def Let_def saveAndReload_quiet)

lemma processItem_quiet:
  assumes q: "quiet env"
  shows "\<exists>s'. processItem env fs i (results, errs, s)
           = (if quotaHit env fs i then Break (results, errs, s')
              else Continue (results @ (case itemRecord env fs i of None \<Rightarrow> [] | Some r \<Rightarrow> [r]),
                             errs @ itemErrors env fs i, s'))
         \<and> trace s' = trace s @ itemEvents env fs i
         \<and> isProcessingCancelled s' = isProcessingCancelled s
         \<and> storeState s' = itemStore env fs (storeState s) i
         \<and> statusState s' = (if quotaHit env fs i then ERROR
                              else case itemOutcome env i (fs ! i) of ParseThrew m \<Rightarrow> PARSING | _ \<Rightarrow> ANALYZING)"
proof (cases "env_parseEmlFile env i (fs ! i)")
  case (Inl m)
  let ?msg = "''Error parseando archivo: '' @ orStr m ''Error desconocido en parseo''"
  let ?s1 = "logEvent (Extract i) ((setStatus PARSING s)\<lparr>progress := \<lparr>current = i, total' = length fs, currentFile = Some (name (fs ! i))\<rparr>\<rparr>)"
  have out: "itemOutcome env i (fs ! i) = ParseThrew m" by (simp add: itemOutcome_def Inl)
  from catchFileError_quiet [OF q, of fs i ?msg results errs ?s1]
  obtain s' where s': "catchFileError env fs i ?msg (results, errs, ?s1)
           = (results @ [errorEmailOf env i (fs ! i) ?msg],
              errs @ [''Error procesando '' @ name (fs ! i) @ '': '' @ orStr ?msg ''Error desconocido''], s')"
     "trace s' = trace ?s1 @ [Persist i [errorEmailOf env i (fs ! i) ?msg]]"
     "isProcessingCancelled s' = isProcessingCancelled ?s1"
     "statusState s' = statusState ?s1"
     "storeState s' = snd (saveToDb (env_newURL env) (env_normalizeWide env) (env_putError env i)
                                   [errorEmailOf env i (fs ! i) ?msg] (storeState ?s1))"
    by blast
  have "processItem env fs i (results, errs, s) = Continue (catchFileError env fs i ?msg (results, errs, ?s1))"
    using q by (simp add: processItem_def Let_def Inl)
  with s' show ?thesis
    by (intro exI [of _ s'])
       (simp add: out quotaHit_def itemRecord_def itemErrors_def itemEvents_def itemStore_def
          fileErrorMessage_def logEvent_def setStatus_def)
next
  case (Inr parsedRaw)
  let ?here = "\<lparr>current = i, total' = length fs, currentFile = Some (name (fs ! i))\<rparr>"
  let ?s1 = "logEvent (Extract i) ((setStatus PARSING s)\<lparr>progress := ?here\<rparr>)"
  let ?s2 = "logEvent (Enrich i) ((setStatus ANALYZING ?s1)\<lparr>progress := ?here\<rparr>)"
  have tr2: "trace ?s2 = trace s @ [SetStatus PARSING, Extract i, SetStatus ANALYZING, Enrich i]"
    "isProcessingCancelled ?s2 = isProcessingCancelled s" "storeState ?s2 = storeState s"
    "statusState ?s2 = ANALYZING"
    by (simp_all add: logEvent_def setStatus_def)
  show ?thesis
  proof (cases "analyzeEmailContent (env_apiKey env) (env_tryBlock env i) parsedRaw")
    case (Inl m)
    let ?msg = "''Error en an'' @ [CHR 0xE1] @ ''lisis de Gemini: '' @ orStr m ''Error desconocido en an'' @ [CHR 0xE1] @ ''lisis''"
    have out: "itemOutcome env i (fs ! i) = AnalysisThrew m"
      by (simp add: itemOutcome_def Inr Inl)
    from catchFileError_quiet [OF q, of fs i ?msg results errs ?s2]
    obtain s' where s': "catchFileError env fs i ?msg (results, errs, ?s2)
           = (results @ [errorEmailOf env i (fs ! i) ?msg],
              errs @ [''Error procesando '' @ name (fs ! i) @ '': '' @ orStr ?msg ''Error desconocido''], s')"
      "trace s' = trace ?s2 @ [Persist i [errorEmailOf env i (fs ! i) ?msg]]"
      "isProcessingCancelled s' = isProcessingCancelled ?s2"
      "statusState s' = statusState ?s2"
      "storeState s' = snd (saveToDb (env_newURL env) (env_normalizeWide env) (env_putError env i)
                                   [errorEmailOf env i (fs ! i) ?msg] (storeState ?s2))"
      by blast
    have "processItem env fs i (results, errs, s) = Continue (catchFileError env fs i ?msg (results, errs, ?s2))"
      using q by (simp add: processItem_def Let_def Inr Inl)
    with s' show ?thesis
      unfolding tr2
      by (intro exI [of _ s'])
         (simp add: out quotaHit_def itemRecord_def itemErrors_def itemEvents_def itemStore_def
            fileErrorMessage_def)
  next
    case R: (Inr r)
    let ?a = "result r"
    have out: "itemOutcome env i (fs ! i) = Analysed parsedRaw ?a"
      by (simp add: itemOutcome_def Inr R)
    consider (quota) "AnalysisResult.tematica ?a = topicQuota"
      | (failure) "AnalysisResult.tematica ?a = topicFailure"
      | (ok) "AnalysisResult.tematica ?a \<noteq> topicQuota" "AnalysisResult.tematica ?a \<noteq> topicFailure"
      by blast
    then show ?thesis
    proof cases
      case quota
      let ?s' = "setStatus ERROR (?s2\<lparr>errorMsg := Some ''Tu API Key ha excedido la cuota gratuita (429). Espera un minuto o revisa tu plan.''\<rparr>)"
      have "processItem env fs i (results, errs, s) = Break (results, errs, ?s')"
        using q quota by (simp add: processItem_def Let_def Inr R)
      then show ?thesis
        using quota
        by (intro exI [of _ ?s'])
           (simp add: out quotaHit_def itemRecord_def itemErrors_def itemEvents_def itemStore_def
              logEvent_def setStatus_def)
    next
      case failure
      let ?s' = "?s2\<lparr>progress := \<lparr>current = i + 1, total' = length fs, currentFile = None\<rparr>\<rparr>"
      have nq: "AnalysisResult.tematica ?a \<noteq> topicQuota" using failure topics_differ by simp
      have "processItem env fs i (results, errs, s)
          = Continue (results, errs @ [''Error analizando '' @ name (fs ! i) @ '': '' @ contenido_resumido ?a], ?s')"
        using q failure nq by (simp add: processItem_def Let_def Inr R)
      then show ?thesis
        using failure nq
        by (intro exI [of _ ?s'])
           (simp add: out quotaHit_def itemRecord_def itemErrors_def itemEvents_def itemStore_def
              logEvent_def setStatus_def)
    next
      case ok
      let ?rec = "analyzedEmailOf env i (fs ! i) parsedRaw ?a"
      let ?s3 = "snd (saveAndReload env i [?rec] ?s2)"
      let ?s' = "?s3\<lparr>progress := \<lparr>current = i + 1, total' = length fs,
            currentFile = (if i + 1 < length fs then Some (name (fs ! (i + 1))) else None)\<rparr>\<rparr>"
      have "processItem env fs i (results, errs, s) = Continue (results @ [?rec], errs, ?s')"
        using q ok by (simp add: processItem_def Let_def Inr R)
      then show ?thesis
        using ok
        by (intro exI [of _ ?s'])
           (simp add: out quotaHit_def itemRecord_def itemErrors_def itemEvents_def itemStore_def
              saveAndReload_quiet [OF q] tr2)
    qed
  qed
qed

lemma map_filter_Cons:
  "List.map_filter f (x # xs) = (case f x of None \<Rightarrow> [] | Some y \<Rightarrow> [y]) @ List.map_filter f xs"
  by (simp add: List.map_filter_simps split: option.splits)

text \<open>One turn of the loop for an item that is let through, when nobody presses stop.\<close>

lemma processLoop_turn:
  assumes q: "quiet env" and i: "i < length fs" and nc: "\<not> isProcessingCancelled s"
  shows "\<exists>s'. trace s' = trace s @ itemEvents env fs i
           \<and> \<not> isProcessingCancelled s'
           \<and> storeState s' = itemStore env fs (storeState s) i
           \<and> statusState s' = (if quotaHit env fs i then ERROR
                                else case itemOutcome env i (fs ! i) of ParseThrew m \<Rightarrow> PARSING | _ \<Rightarrow> ANALYZING)
           \<and> processLoop env cs fs i (results, errs, s)
             = (if quotaHit env fs i then (Broke, results, errs, s')
                else processLoop env cs fs (i + 1)
                       (results @ (case itemRecord env fs i of None \<Rightarrow> [] | Some r \<Rightarrow> [r]),
                        errs @ itemErrors env fs i, s'))"
proof -
  define s1 where "s1 = (if cs \<noteq> COMPLETED \<and> cs \<noteq> ERROR
      then s\<lparr>errorMsg := Some (''Procesando '' @ decimal (i + 1) @ ''/'' @ decimal (length fs) @ '': '' @ name (fs ! i))\<rparr>
      else s)"
  have s1: "trace s1 = trace s" "isProcessingCancelled s1 = isProcessingCancelled s"
    "storeState s1 = storeState s"
    by (simp_all add: s1_def)
  from processItem_quiet [OF q, of fs i results errs s1]
  obtain s' where s': "processItem env fs i (results, errs, s1)
           = (if quotaHit env fs i then Break (results, errs, s')
              else Continue (results @ (case itemRecord env fs i of None \<Rightarrow> [] | Some r \<Rightarrow> [r]),
                             errs @ itemErrors env fs i, s'))"
      "trace s' = trace s1 @ itemEvents env fs i"
      "isProcessingCancelled s' = isProcessingCancelled s1"
      "storeState s' = itemStore env fs (storeState s1) i"
      "statusState s' = (if quotaHit env fs i then ERROR
                              else case itemOutcome env i (fs ! i) of ParseThrew m \<Rightarrow> PARSING | _ \<Rightarrow> ANALYZING)"
    by blast
  have "processLoop env cs fs i (results, errs, s)
      = (case processItem env fs i (results, errs, s1) of
           Break b' \<Rightarrow> (Broke, b')
         | Continue b' \<Rightarrow> processLoop env cs fs (i + 1) b')"
    using i nc s1(2)
    by (subst processLoop.simps) (simp add: Let_def pacingPause_quiet [OF q] s1_def [symmetric])
  with s' s1 nc show ?thesis
    by (intro exI [of _ s']) simp
qed

lemma processLoop_no_quota:
  assumes q: "quiet env" and nc: "\<not> isProcessingCancelled s"
    and nq: "\<forall>j. i \<le> j \<and> j < length fs \<longrightarrow> \<not> quotaHit env fs j"
    and le: "i \<le> length fs"
  shows "\<exists>s'. processLoop env cs fs i (results, errs, s)
           = (Finished, results @ List.map_filter (itemRecord env fs) [i..<length fs],
              errs @ concat (map (itemErrors env fs) [i..<length fs]), s')
         \<and> trace s' = trace s @ concat (map (itemEvents env fs) [i..<length fs])
         \<and> \<not> isProcessingCancelled s'
         \<and> storeState s' = foldl (itemStore env fs) (storeState s) [i..<length fs]"
  using nc nq le
proof (induction "length fs - i" arbitrary: i results errs s)
  case 0
  then have "i = length fs" by simp
  then show ?case
    by (subst processLoop.simps) (simp add: List.map_filter_simps "0.prems"(1))
next
  case (Suc n)
  then have i: "i < length fs" by simp
  have nqi: "\<not> quotaHit env fs i" using Suc.prems(2) i by simp
  from processLoop_turn [OF q i Suc.prems(1), of cs results errs]
  obtain s1 where s1: "trace s1 = trace s @ itemEvents env fs i"
      "\<not> isProcessingCancelled s1"
      "storeState s1 = itemStore env fs (storeState s) i"
      "processLoop env cs fs i (results, errs, s)
         = processLoop env cs fs (i + 1)
             (results @ (case itemRecord env fs i of None \<Rightarrow> [] | Some r \<Rightarrow> [r]),
              errs @ itemErrors env fs i, s1)"
    using nqi by auto
  have n: "n = length fs - (i + 1)" using Suc.hyps(2) by simp
  have nq': "\<forall>j. i + 1 \<le> j \<and> j < length fs \<longrightarrow> \<not> quotaHit env fs j"
    using Suc.prems(2) by simp
  from Suc.hyps(1) [OF n s1(2) nq', of "results @ (case itemRecord env fs i of None \<Rightarrow> [] | Some r \<Rightarrow> [r])"
      "errs @ itemErrors env fs i"] i
  obtain s' where s': "processLoop env cs fs (i + 1)
             (results @ (case itemRecord env fs i of None \<Rightarrow> [] | Some r \<Rightarrow> [r]),
              errs @ itemErrors env fs i, s1)
           = (Finished, (results @ (case itemRecord env fs i of None \<Rightarrow> [] | Some r \<Rightarrow> [r]))
                @ List.map_filter (itemRecord env fs) [i + 1..<length fs],
              (errs @ itemErrors env fs i) @ concat (map (itemErrors env fs) [i + 1..<length fs]), s')"
      "trace s' = trace s1 @ concat (map (itemEvents env fs) [i + 1..<length fs])"
      "\<not> isProcessingCancelled s'"
      "storeState s' = foldl (itemStore env fs) (storeState s1) [i + 1..<length fs]"
    by auto
  have upt: "[i..<length fs] = i # [i + 1..<length fs]"
    using i by (simp add: upt_conv_Cons)
  have "processLoop env cs fs i (results, errs, s)
      = (Finished, results @ List.map_filter (itemRecord env fs) [i..<length fs],
         errs @ concat (map (itemErrors env fs) [i..<length fs]), s')"
    unfolding upt map_filter_Cons s1(4) s'(1) by simp
  moreover have "trace s' = trace s @ concat (map (itemEvents env fs) [i..<length fs])"
    unfolding upt s'(2) s1(1) by simp
  moreover have "storeState s' = foldl (itemStore env fs) (storeState s) [i..<length fs]"
    unfolding upt s'(4) s1(3) by simp
  ultimately show ?case using s'(3) by blast
qed

lemma processLoop_first_quota:
  assumes q: "quiet env" and nc: "\<not> isProcessingCancelled s"
    and nq: "\<forall>j. i \<le> j \<and> j < K \<longrightarrow> \<not> quotaHit env fs j"
    and hit: "quotaHit env fs K" and K: "i \<le> K" "K < length fs"
  shows "\<exists>s'. processLoop env cs fs i (results, errs, s)
           = (Broke, results @ List.map_filter (itemRecord env fs) [i..<K],
              errs @ concat (map (itemErrors env fs) [i..<K]), s')
         \<and> trace s' = trace s @ concat (map (itemEvents env fs) [i..<Suc K])
         \<and> \<not> isProcessingCancelled s'
         \<and> statusState s' = ERROR
         \<and> storeState s' = foldl (itemStore env fs) (storeState s) [i..<K]"
  using nc nq K
proof (induction "K - i" arbitrary: i results errs s)
  case 0
  then have iK: "i = K" by simp
  from processLoop_turn [OF q _ "0.prems"(1), of K fs cs results errs] "0.prems"(4) iK hit
  obtain s' where "trace s' = trace s @ itemEvents env fs K" "\<not> isProcessingCancelled s'"
      "statusState s' = ERROR" "storeState s' = itemStore env fs (storeState s) K"
      "processLoop env cs fs K (results, errs, s) = (Broke, results, errs, s')"
    by auto
  moreover have "itemRecord env fs K = None"
    using hit by (auto simp: quotaHit_def itemRecord_def split: Outcome.splits)
  ultimately show ?case
    unfolding iK
    by (intro exI [of _ s']) (simp add: List.map_filter_simps itemStore_def)
next
  case (Suc n)
  then have i: "i < K" "i < length fs" by simp_all
  have nqi: "\<not> quotaHit env fs i" using Suc.prems(2) i by simp
  from processLoop_turn [OF q i(2) Suc.prems(1), of cs results errs]
  obtain s1 where s1: "trace s1 = trace s @ itemEvents env fs i"
      "\<not> isProcessingCancelled s1"
      "storeState s1 = itemStore env fs (storeState s) i"
      "processLoop env cs fs i (results, errs, s)
         = processLoop env cs fs (i + 1)
             (results @ (case itemRecord env fs i of None \<Rightarrow> [] | Some r \<Rightarrow> [r]),
              errs @ itemErrors env fs i, s1)"
    using nqi by auto
  have n: "n = K - (i + 1)" using Suc.hyps(2) by simp
  have nq': "\<forall>j. i + 1 \<le> j \<and> j < K \<longrightarrow> \<not> quotaHit env fs j"
    using Suc.prems(2) by simp
  have K': "i + 1 \<le> K" using i by simp
  from Suc.hyps(1) [OF n s1(2) nq' K' Suc.prems(4),
      of "results @ (case itemRecord env fs i of None \<Rightarrow> [] | Some r \<Rightarrow> [r])" "errs @ itemErrors env fs i"]
  obtain s' where s': "processLoop env cs fs (i + 1)
             (results @ (case itemRecord env fs i of None \<Rightarrow> [] | Some r \<Rightarrow> [r]),
              errs @ itemErrors env fs i, s1)
           = (Broke, (results @ (case itemRecord env fs i of None \<Rightarrow> [] | Some r \<Rightarrow> [r]))
                @ List.map_filter (itemRecord env fs) [i + 1..<K],
              (errs @ itemErrors env fs i) @ concat (map (itemErrors env fs) [i + 1..<K]), s')"
      "trace s' = trace s1 @ concat (map (itemEvents env fs) [i + 1..<Suc K])"
      "\<not> isProcessingCancelled s'"
      "statusState s' = ERROR"
      "storeState s' = foldl (itemStore env fs) (storeState s1) [i + 1..<K]"
    by auto
  have upt: "[i..<K] = i # [i + 1..<K]" "[i..<Suc K] = i # [i + 1..<Suc K]"
    using i by (simp_all add: upt_conv_Cons)
  have "processLoop env cs fs i (results, errs, s)
      = (Broke, results @ List.map_filter (itemRecord env fs) [i..<K],
         errs @ concat (map (itemErrors env fs) [i..<K]), s')"
    unfolding upt map_filter_Cons s1(4) s'(1) by simp
  moreover have "trace s' = trace s @ concat (map (itemEvents env fs) [i..<Suc K])"
    unfolding upt s'(2) s1(1) by simp
  moreover have "storeState s' = foldl (itemStore env fs) (storeState s) [i..<K]"
    unfolding upt s'(5) s1(3) by simp
  ultimately show ?case using s'(3,4) by blast
qed

lemma startBatch_facts:
  "trace (startBatch s) = trace s @ [SetStatus PARSING]"
  "\<not> isProcessingCancelled (startBatch s)"
  "storeState (startBatch s) = storeState s"
  by (simp_all add: startBatch_def setStatus_def)

lemma finishBatch_loop_end:
  assumes "x = Finished \<or> x = Broke" "\<not> isProcessingCancelled s"
  shows "trace (finishBatch cs (x, results, errs, s))
           = trace s @ (if cs \<noteq> ERROR then [SetStatus COMPLETED] else [])"
    and "statusState (finishBatch cs (x, results, errs, s))
           = (if cs \<noteq> ERROR then COMPLETED else statusState s)"
    and "storeState (finishBatch cs (x, results, errs, s)) = storeState s"
    and "\<not> isProcessingCancelled (finishBatch cs (x, results, errs, s))"
  using assms by (auto simp: finishBatch_def setStatus_def Let_def)

lemma processFiles_runs:
  "files s \<noteq> [] \<Longrightarrow> isApiKeyValid s \<Longrightarrow>
   processFiles env s = finishBatch (statusState s) (batchExit env s)"
  by (simp add: processFiles_def)

text \<open>A batch in which nobody presses stop and no analysis comes back with the quota topic.\<close>

lemma batch_without_quota:
  assumes q: "quiet env"
    and nq: "\<forall>j<length (files s). \<not> quotaHit env (files s) j"
  shows "\<exists>s'. batchExit env s
           = (Finished, List.map_filter (itemRecord env (files s)) [0..<length (files s)],
              concat (map (itemErrors env (files s)) [0..<length (files s)]), s')
         \<and> trace s' = trace s @ [SetStatus PARSING]
              @ concat (map (itemEvents env (files s)) [0..<length (files s)])
         \<and> \<not> isProcessingCancelled s'
         \<and> storeState s' = foldl (itemStore env (files s)) (storeState s) [0..<length (files s)]"
proof -
  have "\<forall>j. 0 \<le> j \<and> j < length (files s) \<longrightarrow> \<not> quotaHit env (files s) j" using nq by simp
  from processLoop_no_quota [OF q startBatch_facts(2) this, of "statusState s" "[]" "[]"]
  show ?thesis
    unfolding batchExit_def by (simp add: startBatch_facts)
qed

text \<open>A batch in which nobody presses stop and item \<open>K\<close> is the first with the quota topic.\<close>

lemma batch_with_quota:
  assumes q: "quiet env"
    and nq: "\<forall>j<K. \<not> quotaHit env (files s) j"
    and hit: "quotaHit env (files s) K" and K: "K < length (files s)"
  shows "\<exists>s'. batchExit env s
           = (Broke, List.map_filter (itemRecord env (files s)) [0..<K],
              concat (map (itemErrors env (files s)) [0..<K]), s')
         \<and> trace s' = trace s @ [SetStatus PARSING]
              @ concat (map (itemEvents env (files s)) [0..<Suc K])
         \<and> \<not> isProcessingCancelled s'
         \<and> statusState s' = ERROR
         \<and> storeState s' = foldl (itemStore env (files s)) (storeState s) [0..<K]"
proof -
  have "\<forall>j. 0 \<le> j \<and> j < K \<longrightarrow> \<not> quotaHit env (files s) j" using nq by simp
  from processLoop_first_quota [OF q startBatch_facts(2) this hit _ K, of "statusState s" "[]" "[]"]
  show ?thesis
    unfolding batchExit_def by (simp add: startBatch_facts)
qed

text \<open>
  What the quota topic does to a batch, in general: the loop stops at the item, and what
  follows the loop then sets the state that the guard was meant to keep.
\<close>

lemma quota_stops_loop_then_completed:
  assumes q: "quiet env" and ne: "files s \<noteq> []" and key: "isApiKeyValid s"
    and nq: "\<forall>j<K. \<not> quotaHit env (files s) j"
    and hit: "quotaHit env (files s) K" and K: "K < length (files s)"
  shows "trace (processFiles env s)
           = trace s @ [SetStatus PARSING] @ concat (map (itemEvents env (files s)) [0..<Suc K])
             @ (if statusState s \<noteq> ERROR then [SetStatus COMPLETED] else [])"
    and "statusState (processFiles env s) = (if statusState s \<noteq> ERROR then COMPLETED else ERROR)"
proof -
  from batch_with_quota [OF q nq hit K]
  obtain s' where s': "batchExit env s
           = (Broke, List.map_filter (itemRecord env (files s)) [0..<K],
              concat (map (itemErrors env (files s)) [0..<K]), s')"
      "trace s' = trace s @ [SetStatus PARSING] @ concat (map (itemEvents env (files s)) [0..<Suc K])"
      "\<not> isProcessingCancelled s'" "statusState s' = ERROR"
    by blast
  show "trace (processFiles env s)
           = trace s @ [SetStatus PARSING] @ concat (map (itemEvents env (files s)) [0..<Suc K])
             @ (if statusState s \<noteq> ERROR then [SetStatus COMPLETED] else [])"
    unfolding processFiles_runs [OF ne key] s'(1)
    by (simp add: finishBatch_loop_end(1) [OF _ s'(3)] s'(2))
  show "statusState (processFiles env s) = (if statusState s \<noteq> ERROR then COMPLETED else ERROR)"
    unfolding processFiles_runs [OF ne key] s'(1)
    by (simp add: finishBatch_loop_end(2) [OF _ s'(3)] s'(4))
qed

subsection \<open>The cancellation flag, whatever the user does\<close>







subsection \<open>The events of a batch\<close>

lemma touched_itemEvents:
  "ev \<in> set (itemEvents env fs i) \<Longrightarrow> touched ev = Some j \<Longrightarrow> j = i"
  by (auto simp: itemEvents_def touched_def split: Outcome.splits option.splits if_splits)

lemma Persist_itemEvents:
  "Persist j rs \<in> set (itemEvents env fs i) \<longleftrightarrow> j = i \<and> (\<exists>r. itemRecord env fs i = Some r \<and> rs = [r])"
  by (auto simp: itemEvents_def split: Outcome.splits option.splits if_splits)

lemma Extract_itemEvents: "Extract i \<in> set (itemEvents env fs i)"
  by (simp add: itemEvents_def)

lemma entryOfRow_status: "entryOfRow r = Inr e \<Longrightarrow> status e = completed"
  by (auto simp: entryOfRow_def split: sum.splits)

lemma mapRows_status: "mapRows rs = Inr es \<Longrightarrow> e \<in> set es \<Longrightarrow> status e = completed"
  by (induction rs arbitrary: es) (auto split: sum.splits dest: entryOfRow_status)

lemma getAllEmails_status: "getAllEmails st = Inr es \<Longrightarrow> e \<in> set es \<Longrightarrow> status e = completed"
  unfolding getAllEmails_def by (rule mapRows_status)

lemma batchEvents_no_quota:
  assumes q: "quiet env" and ne: "files s \<noteq> []" and key: "isApiKeyValid s"
    and nq: "\<forall>j<length (files s). \<not> quotaHit env (files s) j"
  shows "batchEvents env s = [SetStatus PARSING]
           @ concat (map (itemEvents env (files s)) [0..<length (files s)])
           @ (if statusState s \<noteq> ERROR then [SetStatus COMPLETED] else [])"
    and "storeState (processFiles env s)
           = foldl (itemStore env (files s)) (storeState s) [0..<length (files s)]"
    and "statusState s \<noteq> ERROR \<Longrightarrow> statusState (processFiles env s) = COMPLETED"
    and "fst (snd (snd (batchExit env s))) = concat (map (itemErrors env (files s)) [0..<length (files s)])"
proof -
  from batch_without_quota [OF q nq]
  obtain s' where s': "batchExit env s
           = (Finished, List.map_filter (itemRecord env (files s)) [0..<length (files s)],
              concat (map (itemErrors env (files s)) [0..<length (files s)]), s')"
      "trace s' = trace s @ [SetStatus PARSING]
              @ concat (map (itemEvents env (files s)) [0..<length (files s)])"
      "\<not> isProcessingCancelled s'"
      "storeState s' = foldl (itemStore env (files s)) (storeState s) [0..<length (files s)]"
    by blast
  have "trace (processFiles env s) = trace s @ [SetStatus PARSING]
           @ concat (map (itemEvents env (files s)) [0..<length (files s)])
           @ (if statusState s \<noteq> ERROR then [SetStatus COMPLETED] else [])"
    unfolding processFiles_runs [OF ne key] s'(1)
    by (simp add: finishBatch_loop_end(1) [OF _ s'(3)] s'(2))
  then show "batchEvents env s = [SetStatus PARSING]
           @ concat (map (itemEvents env (files s)) [0..<length (files s)])
           @ (if statusState s \<noteq> ERROR then [SetStatus COMPLETED] else [])"
    unfolding batchEvents_def by simp
  show "storeState (processFiles env s)
           = foldl (itemStore env (files s)) (storeState s) [0..<length (files s)]"
    unfolding processFiles_runs [OF ne key] s'(1)
    by (simp add: finishBatch_loop_end(3) [OF _ s'(3)] s'(4))
  show "statusState s \<noteq> ERROR \<Longrightarrow> statusState (processFiles env s) = COMPLETED"
    unfolding processFiles_runs [OF ne key] s'(1)
    by (simp add: finishBatch_loop_end(2) [OF _ s'(3)])
  show "fst (snd (snd (batchExit env s))) = concat (map (itemErrors env (files s)) [0..<length (files s)])"
    unfolding s'(1) by simp
qed

lemma batchEvents_quota:
  assumes q: "quiet env" and ne: "files s \<noteq> []" and key: "isApiKeyValid s"
    and nq: "\<forall>j<K. \<not> quotaHit env (files s) j"
    and hit: "quotaHit env (files s) K" and K: "K < length (files s)"
  shows "batchEvents env s = [SetStatus PARSING]
           @ concat (map (itemEvents env (files s)) [0..<Suc K])
           @ (if statusState s \<noteq> ERROR then [SetStatus COMPLETED] else [])"
    and "fst (snd (snd (batchExit env s))) = concat (map (itemErrors env (files s)) [0..<K])"
proof -
  from quota_stops_loop_then_completed(1) [OF q ne key nq hit K]
  show "batchEvents env s = [SetStatus PARSING]
           @ concat (map (itemEvents env (files s)) [0..<Suc K])
           @ (if statusState s \<noteq> ERROR then [SetStatus COMPLETED] else [])"
    unfolding batchEvents_def by simp
  from batch_with_quota [OF q nq hit K]
  show "fst (snd (snd (batchExit env s))) = concat (map (itemErrors env (files s)) [0..<K])"
    by auto
qed

lemma first_quota:
  assumes "\<not> (\<forall>j<N. \<not> quotaHit env fs j)"
  obtains K where "K < N" "quotaHit env fs K" "\<forall>j<K. \<not> quotaHit env fs j"
proof -
  define K where "K = (LEAST j. j < N \<and> quotaHit env fs j)"
  from assms obtain j where j: "j < N \<and> quotaHit env fs j" by blast
  from LeastI [of "\<lambda>j. j < N \<and> quotaHit env fs j", OF j]
  have 1: "K < N" "quotaHit env fs K" unfolding K_def by simp_all
  have "\<forall>j<K. \<not> quotaHit env fs j"
  proof (intro allI impI notI)
    fix j assume "j < K" "quotaHit env fs j"
    with 1 have "j < N \<and> quotaHit env fs j" by simp
    from not_less_Least [of j "\<lambda>j. j < N \<and> quotaHit env fs j"] \<open>j < K\<close> this
    show False unfolding K_def by blast
  qed
  with 1 that show thesis by blast
qed

subsection \<open>The batch\<close>

text \<open>
  C3, as the code has it. Nobody presses stop, and item \<open>K\<close> is the first whose analysis
  has the quota topic. The loop stops there: the events of the batch are those of the items
  up to \<open>K\<close>, none is about a later item, and item \<open>K\<close> is not saved. But the state in which
  the batch ends is \<open>COMPLETED\<close>, unless the batch was started in the state \<open>ERROR\<close>: the
  test \<open>status !== ProcessingStatus.ERROR\<close> after the loop reads the state of the render
  that created \<open>processFiles\<close>, which the \<open>setStatus(ProcessingStatus.ERROR)\<close> of the loop
  does not change.
\<close>

theorem quota_topic_breaks_then_completed:
  assumes "quiet env" and "files s \<noteq> []" and "isApiKeyValid s"
    and "K < length (files s)" and "quotaHit env (files s) K"
    and "\<forall>j<K. \<not> quotaHit env (files s) j"
  shows "batchEvents env s = [SetStatus PARSING]
           @ concat (map (itemEvents env (files s)) [0..<Suc K])
           @ (if statusState s \<noteq> ERROR then [SetStatus COMPLETED] else [])
       \<and> (\<forall>ev\<in>set (batchEvents env s). \<forall>j. touched ev = Some j \<longrightarrow> j \<le> K)
       \<and> (\<forall>rs. Persist K rs \<notin> set (batchEvents env s))
       \<and> statusState (processFiles env s) = (if statusState s \<noteq> ERROR then COMPLETED else ERROR)"
proof -
  note ev = batchEvents_quota(1) [OF assms(1-3) assms(6) assms(5) assms(4)]
  have none: "itemRecord env (files s) K = None"
    using assms(5) by (auto simp: quotaHit_def itemRecord_def split: Outcome.splits)
  have 1: "\<forall>ev\<in>set (batchEvents env s). \<forall>j. touched ev = Some j \<longrightarrow> j \<le> K"
  proof (intro ballI allI impI)
    fix ev j assume "ev \<in> set (batchEvents env s)" and t: "touched ev = Some j"
    then have "ev \<in> set [SetStatus PARSING] \<or> (\<exists>i\<in>set [0..<Suc K]. ev \<in> set (itemEvents env (files s) i))
        \<or> ev \<in> set (if statusState s \<noteq> ERROR then [SetStatus COMPLETED] else [])"
      unfolding ev by auto
    then show "j \<le> K"
    proof (elim disjE bexE)
      fix i assume "i \<in> set [0..<Suc K]" "ev \<in> set (itemEvents env (files s) i)"
      with touched_itemEvents [OF this(2) t] show ?thesis by auto
    qed (use t in \<open>auto simp: touched_def split: if_splits\<close>)
  qed
  have 2: "\<forall>rs. Persist K rs \<notin> set (batchEvents env s)"
  proof (intro allI notI)
    fix rs assume "Persist K rs \<in> set (batchEvents env s)"
    then have "\<exists>i\<in>set [0..<Suc K]. Persist K rs \<in> set (itemEvents env (files s) i)"
      unfolding ev by (auto split: if_splits)
    then show False unfolding Persist_itemEvents using none by auto
  qed
  from ev 1 2 quota_stops_loop_then_completed(2) [OF assms(1-3) assms(6) assms(5) assms(4)]
  show ?thesis by blast
qed

text \<open>The item with the topic of a failed analysis, in a batch in which nobody presses stop.\<close>

lemma generic_failure_in_batch:
  assumes "quiet env" and "files s \<noteq> []" and "isApiKeyValid s"
    and "K < length (files s)"
    and "itemOutcome env K (files s ! K) = Analysed parsedRaw analysis"
    and "AnalysisResult.tematica analysis = topicFailure"
    and "\<forall>j<K. \<not> quotaHit env (files s) j"
  shows "(''Error analizando '' @ name (files s ! K) @ '': '' @ contenido_resumido analysis)
           \<in> set (fst (snd (snd (batchExit env s))))
       \<and> (\<forall>rs. Persist K rs \<notin> set (batchEvents env s))
       \<and> (Suc K < length (files s) \<longrightarrow> Extract (Suc K) \<in> set (batchEvents env s))
       \<and> ((\<forall>j<length (files s). \<not> quotaHit env (files s) j) \<and> statusState s \<noteq> ERROR
            \<longrightarrow> statusState (processFiles env s) = COMPLETED)"
proof -
  let ?fs = "files s"
  define m where "m = ''Error analizando '' @ name (?fs ! K) @ '': '' @ contenido_resumido analysis"
  have td: "topicFailure \<noteq> topicQuota" by (simp add: topicFailure_def topicQuota_def)
  have "itemErrors env ?fs K = [m]"
    using assms(5,6) td by (simp add: itemErrors_def m_def)
  then have errK: "K \<in> set R \<Longrightarrow> m \<in> set (concat (map (itemErrors env ?fs) R))" for R
    by (auto intro!: bexI [of _ K])
  have recK: "itemRecord env ?fs K = None"
    using assms(5,6) by (simp add: itemRecord_def)
  have nqK: "\<not> quotaHit env ?fs K"
    using assms(5,6) td by (simp add: quotaHit_def)
  have nPersist: "\<And>rs R. Persist K rs \<notin> (\<Union>i\<in>R. set (itemEvents env ?fs i))"
    using recK by (auto simp: Persist_itemEvents)
  show ?thesis
  proof (cases "\<forall>j<length ?fs. \<not> quotaHit env ?fs j")
    case True
    note b = batchEvents_no_quota [OF assms(1-3) True]
    have "m \<in> set (fst (snd (snd (batchExit env s))))"
      unfolding b(4) using errK [of "[0..<length ?fs]"] assms(4) by simp
    moreover have "\<forall>rs. Persist K rs \<notin> set (batchEvents env s)"
      unfolding b(1) using nPersist by (auto split: if_splits)
    moreover have "Suc K < length ?fs \<longrightarrow> Extract (Suc K) \<in> set (batchEvents env s)"
      unfolding b(1) using Extract_itemEvents [of "Suc K" env ?fs] by auto
    ultimately show ?thesis using b(3) unfolding m_def by blast
  next
    case False
    from first_quota [OF False] obtain Q where Q: "Q < length ?fs" "quotaHit env ?fs Q"
        "\<forall>j<Q. \<not> quotaHit env ?fs j"
      by blast
    have KQ: "K < Q"
    proof (rule ccontr)
      assume "\<not> K < Q"
      with nqK Q(2) have "Q < K" by (cases "Q = K") auto
      with assms(7) Q(2) show False by blast
    qed
    note b = batchEvents_quota [OF assms(1-3) Q(3) Q(2) Q(1)]
    have "m \<in> set (fst (snd (snd (batchExit env s))))"
      unfolding b(2) using errK [of "[0..<Q]"] KQ by simp
    moreover have "\<forall>rs. Persist K rs \<notin> set (batchEvents env s)"
      unfolding b(1) using nPersist by (auto split: if_splits)
    moreover have "Suc K \<in> set [0..<Suc Q]" using KQ by (simp del: upt_Suc)
    then have "Extract (Suc K) \<in> set (concat (map (itemEvents env ?fs) [0..<Suc Q]))"
      using Extract_itemEvents [of "Suc K" env ?fs] unfolding set_concat set_map by blast
    then have "Extract (Suc K) \<in> set (batchEvents env s)"
      unfolding b(1) by simp
    ultimately show ?thesis using False unfolding m_def by blast
  qed
qed

text \<open>The turn of the loop for such an item, whatever the user does meanwhile.\<close>

lemma processItem_generic_failure:
  assumes "itemOutcome env i (fs ! i) = Analysed parsedRaw analysis"
    and "AnalysisResult.tematica analysis = topicFailure"
  shows "\<exists>s'. processItem env fs i (results, errs, s)
           = Continue (results,
               errs @ [''Error analizando '' @ name (fs ! i) @ '': '' @ contenido_resumido analysis], s')
         \<and> trace s' = trace s @ [SetStatus PARSING, Extract i, SetStatus ANALYZING, Enrich i]
         \<and> storeState s' = storeState s"
proof -
  from assms(1) obtain r where p: "env_parseEmlFile env i (fs ! i) = Inr parsedRaw"
      and a: "analyzeEmailContent (env_apiKey env) (env_tryBlock env i) parsedRaw = Inr r"
      and r: "result r = analysis"
    by (auto simp: itemOutcome_def split: sum.splits)
  have td: "topicFailure \<noteq> topicQuota" by (simp add: topicFailure_def topicQuota_def)
  have aw: "trace (awaiting env i a s) = trace s" "storeState (awaiting env i a s) = storeState s" for a s
    by (simp_all add: awaiting_def stopProcessing_def)
  show ?thesis
    unfolding processItem_def prod.case Let_def p a sum.case r
    using assms(2) td
    by (simp add: aw setStatus_def logEvent_def)
qed

text \<open>
  C4. The analysis of item \<open>K\<close> has the topic of a failed analysis. The turn of the loop
  for the item, in whatever state it is entered and whatever the user does meanwhile,
  ends in \<open>continue\<close>: the failure is appended to \<open>processingErrors\<close>, \<open>results\<close> and the
  store are as before and \<open>saveToDb\<close> is not called, so that the loop goes on with
  \<open>K + 1\<close>. In a batch in which nobody presses stop and no earlier item has the quota
  topic, the failure is in \<open>processingErrors\<close> when the loop is left, item \<open>K + 1\<close>, if
  there is one, is extracted, and the batch ends in the state \<open>COMPLETED\<close> when no item has
  the quota topic and the batch was not started in the state \<open>ERROR\<close>.
\<close>

theorem generic_failure_skips_item:
  assumes "K < length (files s)"
    and "itemOutcome env K (files s ! K) = Analysed parsedRaw analysis"
    and "AnalysisResult.tematica analysis = topicFailure"
  shows "(\<exists>s'. processItem env (files s) K (results, errs, s0)
            = Continue (results,
                errs @ [''Error analizando '' @ name (files s ! K) @ '': '' @ contenido_resumido analysis],
                s')
          \<and> trace s' = trace s0 @ [SetStatus PARSING, Extract K, SetStatus ANALYZING, Enrich K]
          \<and> storeState s' = storeState s0)
       \<and> (quiet env \<and> files s \<noteq> [] \<and> isApiKeyValid s \<and> (\<forall>j<K. \<not> quotaHit env (files s) j)
          \<longrightarrow> (''Error analizando '' @ name (files s ! K) @ '': '' @ contenido_resumido analysis)
                \<in> set (fst (snd (snd (batchExit env s))))
              \<and> (\<forall>rs. Persist K rs \<notin> set (batchEvents env s))
              \<and> (Suc K < length (files s) \<longrightarrow> Extract (Suc K) \<in> set (batchEvents env s))
              \<and> ((\<forall>j<length (files s). \<not> quotaHit env (files s) j) \<and> statusState s \<noteq> ERROR
                   \<longrightarrow> statusState (processFiles env s) = COMPLETED))"
proof (intro conjI impI)
  show "\<exists>s'. processItem env (files s) K (results, errs, s0)
            = Continue (results,
                errs @ [''Error analizando '' @ name (files s ! K) @ '': '' @ contenido_resumido analysis],
                s')
          \<and> trace s' = trace s0 @ [SetStatus PARSING, Extract K, SetStatus ANALYZING, Enrich K]
          \<and> storeState s' = storeState s0"
    by (rule processItem_generic_failure [OF assms(2,3)])
next
  assume h: "quiet env \<and> files s \<noteq> [] \<and> isApiKeyValid s \<and> (\<forall>j<K. \<not> quotaHit env (files s) j)"
  then have q: "quiet env" and ne: "files s \<noteq> []" and key: "isApiKeyValid s"
    and nq: "\<forall>j<K. \<not> quotaHit env (files s) j"
    by simp_all
  note b = generic_failure_in_batch [OF q ne key assms(1) assms(2) assms(3) nq]
  from b show "(''Error analizando '' @ name (files s ! K) @ '': '' @ contenido_resumido analysis)
                \<in> set (fst (snd (snd (batchExit env s))))"
    by (rule conjunct1)
  from b show "\<forall>rs. Persist K rs \<notin> set (batchEvents env s)" by blast
  {
    assume "Suc K < length (files s)"
    with b show "Extract (Suc K) \<in> set (batchEvents env s)" by blast
  }
  {
    assume "(\<forall>j<length (files s). \<not> quotaHit env (files s) j) \<and> statusState s \<noteq> ERROR"
    with b show "statusState (processFiles env s) = COMPLETED" by blast
  }
qed

text \<open>The table after the calls of \<open>saveToDb\<close> that a run of items makes.\<close>

lemma appendAll_append:
  "appendAll newURL nw (xs @ ys) d = appendAll newURL nw ys (appendAll newURL nw xs d)"
  by (induction xs arbitrary: d) simp_all

lemma dbInstance_itemStore:
  "dbInstance (itemStore env fs st i)
     = appendAll (env_newURL env) (env_normalizeWide env)
         (case itemRecord env fs i of None \<Rightarrow> [] | Some r \<Rightarrow> [r]) (dbInstance st)"
  by (simp add: itemStore_def saveToDb_appendAll split: option.splits)

lemma dbInstance_foldl_itemStore:
  "dbInstance (foldl (itemStore env fs) st js)
     = appendAll (env_newURL env) (env_normalizeWide env)
         (List.map_filter (itemRecord env fs) js) (dbInstance st)"
proof (induction js arbitrary: st)
  case Nil
  show ?case by (simp add: List.map_filter_simps)
next
  case (Cons j js)
  show ?case
    unfolding foldl_Cons Cons.IH dbInstance_itemStore map_filter_Cons appendAll_append ..
qed

text \<open>
  C2, as the code has it. Nobody presses stop and no item has the quota topic. Each item
  is followed, before the next one is extracted, by one call of \<open>saveToDb\<close> with its record
  alone: a record with status \<open>error\<close> when the extraction or the analysis threw, a record
  with status \<open>completed\<close> when the analysis returned. An item whose analysis returned
  the topic of a failed analysis has no record and no call. The store after the batch is
  the store after these calls in order; its table is the table that the records of the
  batch leave when each is appended unless it is a duplicate; and \<open>getAllEmails\<close> reports
  every row of it with status \<open>completed\<close>, the table having no column for the status.
\<close>

theorem batch_persists_each_record:
  assumes "quiet env" and "files s \<noteq> []" and "isApiKeyValid s"
    and "\<forall>j<length (files s). \<not> quotaHit env (files s) j"
  shows "batchEvents env s = [SetStatus PARSING]
           @ concat (map (itemEvents env (files s)) [0..<length (files s)])
           @ (if statusState s \<noteq> ERROR then [SetStatus COMPLETED] else [])
       \<and> (\<forall>i<length (files s).
            case itemOutcome env i (files s ! i) of
              Analysed parsedRaw analysis \<Rightarrow>
                if AnalysisResult.tematica analysis = topicFailure
                then \<forall>rs. Persist i rs \<notin> set (batchEvents env s)
                else Persist i [analyzedEmailOf env i (files s ! i) parsedRaw analysis]
                       \<in> set (batchEvents env s)
            | out \<Rightarrow> Persist i [errorEmailOf env i (files s ! i) (fileErrorMessage out)]
                       \<in> set (batchEvents env s))
       \<and> storeState (processFiles env s)
           = foldl (itemStore env (files s)) (storeState s) [0..<length (files s)]
       \<and> dbInstance (storeState (processFiles env s))
           = appendAll (env_newURL env) (env_normalizeWide env)
               (List.map_filter (itemRecord env (files s)) [0..<length (files s)])
               (dbInstance (storeState s))
       \<and> (\<forall>es. getAllEmails (storeState (processFiles env s)) = Inr es
            \<longrightarrow> (\<forall>e\<in>set es. status e = completed))"
proof -
  let ?fs = "files s"
  note b = batchEvents_no_quota [OF assms]
  have P: "Persist i rs \<in> set (batchEvents env s)
      \<longleftrightarrow> i < length ?fs \<and> (\<exists>r. itemRecord env ?fs i = Some r \<and> rs = [r])" for i rs
    unfolding b(1) by (auto simp: Persist_itemEvents split: if_splits)
  have "\<forall>i<length ?fs.
            case itemOutcome env i (?fs ! i) of
              Analysed parsedRaw analysis \<Rightarrow>
                if AnalysisResult.tematica analysis = topicFailure
                then \<forall>rs. Persist i rs \<notin> set (batchEvents env s)
                else Persist i [analyzedEmailOf env i (?fs ! i) parsedRaw analysis]
                       \<in> set (batchEvents env s)
            | out \<Rightarrow> Persist i [errorEmailOf env i (?fs ! i) (fileErrorMessage out)]
                       \<in> set (batchEvents env s)"
  proof (intro allI impI)
    fix i assume i: "i < length ?fs"
    with assms(4) have nq: "\<not> quotaHit env ?fs i" by simp
    show "case itemOutcome env i (?fs ! i) of
              Analysed parsedRaw analysis \<Rightarrow>
                if AnalysisResult.tematica analysis = topicFailure
                then \<forall>rs. Persist i rs \<notin> set (batchEvents env s)
                else Persist i [analyzedEmailOf env i (?fs ! i) parsedRaw analysis]
                       \<in> set (batchEvents env s)
            | out \<Rightarrow> Persist i [errorEmailOf env i (?fs ! i) (fileErrorMessage out)]
                       \<in> set (batchEvents env s)"
      using nq i unfolding P
      by (cases "itemOutcome env i (?fs ! i)") (simp_all add: itemRecord_def quotaHit_def)
  qed
  moreover have "\<forall>es. getAllEmails (storeState (processFiles env s)) = Inr es
            \<longrightarrow> (\<forall>e\<in>set es. status e = completed)"
    using getAllEmails_status by blast
  moreover have "dbInstance (storeState (processFiles env s))
           = appendAll (env_newURL env) (env_normalizeWide env)
               (List.map_filter (itemRecord env (files s)) [0..<length (files s)])
               (dbInstance (storeState s))"
    unfolding b(2) by (rule dbInstance_foldl_itemStore)
  ultimately show ?thesis using b(1,2) by blast
qed


subsection \<open>Sample runs\<close>

lemma quiet_samples: "quiet quotaAtFirst" "quiet failureAtFirst" "quiet unreadableFirst"
  by (simp_all add: quiet_def quotaAtFirst_def failureAtFirst_def unreadableFirst_def sampleEnv_def)

lemma sampleApp_facts:
  "files (sampleApp twoFiles) \<noteq> []" "isApiKeyValid (sampleApp twoFiles)"
  "length (files (sampleApp twoFiles)) = 2" "statusState (sampleApp twoFiles) = IDLE"
  by (simp_all add: sampleApp_def twoFiles_def)

text \<open>
  C3 on a batch of two files, started in the state \<open>IDLE\<close>, in which the service answers
  429 to every attempt for the first file: the second file is never extracted, and the
  last call of \<open>setStatus\<close> is \<open>setStatus(ProcessingStatus.COMPLETED)\<close>.
\<close>

theorem quota_topic_breaks_then_completed_witness:
  "batchEvents quotaAtFirst (sampleApp twoFiles)
     = [SetStatus PARSING, SetStatus PARSING, Extract 0, SetStatus ANALYZING, Enrich 0,
        SetStatus ERROR, SetStatus COMPLETED]
   \<and> statusState (processFiles quotaAtFirst (sampleApp twoFiles)) = COMPLETED"
proof -
  have hit: "quotaHit quotaAtFirst (files (sampleApp twoFiles)) 0" by code_simp
  have K: "0 < length (files (sampleApp twoFiles))" by (simp add: sampleApp_facts)
  have nq: "\<forall>j<0::nat. \<not> quotaHit quotaAtFirst (files (sampleApp twoFiles)) j" by simp
  note t = quota_topic_breaks_then_completed [OF quiet_samples(1) sampleApp_facts(1,2) K hit nq]
  have ev: "[SetStatus PARSING]
           @ concat (map (itemEvents quotaAtFirst (files (sampleApp twoFiles))) [0..<Suc 0])
           @ (if statusState (sampleApp twoFiles) \<noteq> ERROR then [SetStatus COMPLETED] else [])
     = [SetStatus PARSING, SetStatus PARSING, Extract 0, SetStatus ANALYZING, Enrich 0,
        SetStatus ERROR, SetStatus COMPLETED]"
    by code_simp
  from t have 1: "batchEvents quotaAtFirst (sampleApp twoFiles)
     = [SetStatus PARSING, SetStatus PARSING, Extract 0, SetStatus ANALYZING, Enrich 0,
        SetStatus ERROR, SetStatus COMPLETED]"
    unfolding ev by (rule conjunct1)
  from t have 2: "statusState (processFiles quotaAtFirst (sampleApp twoFiles)) = COMPLETED"
    by (simp add: sampleApp_facts(4))
  from 1 2 show ?thesis by (rule conjI)
qed

text \<open>
  C4 on a batch of two files in which every attempt for the first file fails without a
  sign of quota.
\<close>

theorem generic_failure_skips_item_witness:
  "(''Error analizando a.eml: Error analizando contenido despu'' @ [CHR 0xE9]
      @ ''s de 5 intentos: No response from AI. Contenido parcial: Hello'')
     \<in> set (fst (snd (snd (batchExit failureAtFirst (sampleApp twoFiles)))))
   \<and> Extract 1 \<in> set (batchEvents failureAtFirst (sampleApp twoFiles))
   \<and> statusState (processFiles failureAtFirst (sampleApp twoFiles)) = COMPLETED"
proof -
  let ?fs = "files (sampleApp twoFiles)"
  define analysis where "analysis = \<lparr>AnalysisResult.tematica = topicFailure, AnalysisResult.etiquetas = [''Error''],
      contenido_resumido = ''Error analizando contenido despu'' @ [CHR 0xE9]
        @ ''s de 5 intentos: No response from AI. Contenido parcial: Hello'',
      AnalysisResult.urls = [], fecha_normalizada = ''Sat, 29 Nov 2025 07:50:00 +0000''\<rparr>"
  have out: "itemOutcome failureAtFirst 0 (?fs ! 0)
      = Analysed (sampleRaw\<lparr>ParsedEmailRaw.fileName := ''a.eml'', bodyText := ''Hello''\<rparr>) analysis"
    unfolding analysis_def by code_simp
  have topic: "AnalysisResult.tematica analysis = topicFailure" by (simp add: analysis_def)
  have K: "0 < length ?fs" by (simp add: sampleApp_facts)
  have nq0: "\<forall>j<0::nat. \<not> quotaHit failureAtFirst ?fs j" by simp
  have q0: "\<not> quotaHit failureAtFirst ?fs 0" and q1: "\<not> quotaHit failureAtFirst ?fs 1"
    by code_simp+
  have nq: "\<forall>j<length ?fs. \<not> quotaHit failureAtFirst ?fs j"
    unfolding sampleApp_facts(3) using q0 q1 by (auto simp: less_Suc_eq numeral_2_eq_2)
  have h: "quiet failureAtFirst \<and> files (sampleApp twoFiles) \<noteq> [] \<and> isApiKeyValid (sampleApp twoFiles)
      \<and> (\<forall>j<0::nat. \<not> quotaHit failureAtFirst ?fs j)"
    using quiet_samples(2) sampleApp_facts(1,2) by simp
  note t = generic_failure_skips_item [OF K out topic, THEN conjunct2, rule_format, OF h]
  have n: "name (?fs ! 0) = ''a.eml''" by (simp add: sampleApp_def twoFiles_def)
  have c: "contenido_resumido analysis = ''Error analizando contenido despu'' @ [CHR 0xE9]
        @ ''s de 5 intentos: No response from AI. Contenido parcial: Hello''"
    by (simp add: analysis_def)
  from t have 1: "(''Error analizando '' @ name (?fs ! 0) @ '': '' @ contenido_resumido analysis)
           \<in> set (fst (snd (snd (batchExit failureAtFirst (sampleApp twoFiles)))))"
    by (rule conjunct1)
  have 1: "(''Error analizando a.eml: Error analizando contenido despu'' @ [CHR 0xE9]
      @ ''s de 5 intentos: No response from AI. Contenido parcial: Hello'')
     \<in> set (fst (snd (snd (batchExit failureAtFirst (sampleApp twoFiles)))))"
    using 1 unfolding n c by simp
  from t have 2: "Extract 1 \<in> set (batchEvents failureAtFirst (sampleApp twoFiles))"
    by (simp add: sampleApp_facts(3))
  from t nq have 3: "statusState (processFiles failureAtFirst (sampleApp twoFiles)) = COMPLETED"
    by (simp add: sampleApp_facts(4))
  from 1 2 3 show ?thesis by (intro conjI)
qed

text \<open>
  C2, as the code has it, on a batch of two files the first of which cannot be read.
\<close>

theorem batch_persists_each_record_witness:
  "concat (map persistedOf (batchEvents unreadableFirst (sampleApp twoFiles)))
     = [(0, ''a.eml'', error), (1, ''b.eml'', completed)]
   \<and> map_sum id (map (\<lambda>e. (fileName e, status e)))
       (getAllEmails (storeState (processFiles unreadableFirst (sampleApp twoFiles))))
     = Inr [(Some ''b.eml'', completed), (Some ''a.eml'', completed)]
   \<and> map (\<lambda>r. (col_id r, col_fileName r, col_tematica r, col_urls r))
       (rows (dbInstance (storeState (processFiles unreadableFirst (sampleApp twoFiles)))))
     = [(1, Some ''a.eml'', Some topicFailure, Some (JSON_stringify [])),
        (2, Some ''b.eml'', Some ''IA'', Some (JSON_stringify [''https://x.com/u/status/1'']))]"
proof -
  let ?fs = "files (sampleApp twoFiles)"
  have q0: "\<not> quotaHit unreadableFirst ?fs 0" and q1: "\<not> quotaHit unreadableFirst ?fs 1"
    by code_simp+
  have nq: "\<forall>j<length ?fs. \<not> quotaHit unreadableFirst ?fs j"
    unfolding sampleApp_facts(3) using q0 q1 by (auto simp: less_Suc_eq numeral_2_eq_2)
  note t = batch_persists_each_record [OF quiet_samples(3) sampleApp_facts(1,2) nq]
  have ev: "concat (map persistedOf ([SetStatus PARSING]
           @ concat (map (itemEvents unreadableFirst ?fs) [0..<length ?fs])
           @ (if statusState (sampleApp twoFiles) \<noteq> ERROR then [SetStatus COMPLETED] else [])))
      = [(0, ''a.eml'', error), (1, ''b.eml'', completed)]"
    by code_simp
  have st: "map_sum id (map (\<lambda>e. (fileName e, status e)))
       (getAllEmails (foldl (itemStore unreadableFirst ?fs) (storeState (sampleApp twoFiles)) [0..<length ?fs]))
     = Inr [(Some ''b.eml'', completed), (Some ''a.eml'', completed)]"
    by code_simp
  from t have e1: "batchEvents unreadableFirst (sampleApp twoFiles) = [SetStatus PARSING]
           @ concat (map (itemEvents unreadableFirst ?fs) [0..<length ?fs])
           @ (if statusState (sampleApp twoFiles) \<noteq> ERROR then [SetStatus COMPLETED] else [])"
    by (rule conjunct1)
  from t have e2: "storeState (processFiles unreadableFirst (sampleApp twoFiles))
           = foldl (itemStore unreadableFirst ?fs) (storeState (sampleApp twoFiles)) [0..<length ?fs]"
    by blast
  have tb: "map (\<lambda>r. (col_id r, col_fileName r, col_tematica r, col_urls r))
       (rows (appendAll (env_newURL unreadableFirst) (env_normalizeWide unreadableFirst)
               (List.map_filter (itemRecord unreadableFirst ?fs) [0..<length ?fs])
               (dbInstance (storeState (sampleApp twoFiles)))))
     = [(1, Some ''a.eml'', Some topicFailure, Some (JSON_stringify [])),
        (2, Some ''b.eml'', Some ''IA'', Some (JSON_stringify [''https://x.com/u/status/1'']))]"
    by code_simp
  from t have e3: "dbInstance (storeState (processFiles unreadableFirst (sampleApp twoFiles)))
           = appendAll (env_newURL unreadableFirst) (env_normalizeWide unreadableFirst)
               (List.map_filter (itemRecord unreadableFirst ?fs) [0..<length ?fs])
               (dbInstance (storeState (sampleApp twoFiles)))"
    by blast
  have c1: "concat (map persistedOf (batchEvents unreadableFirst (sampleApp twoFiles)))
     = [(0, ''a.eml'', error), (1, ''b.eml'', completed)]"
    unfolding e1 by (rule ev)
  have c2: "map_sum id (map (\<lambda>e. (fileName e, status e)))
       (getAllEmails (storeState (processFiles unreadableFirst (sampleApp twoFiles))))
     = Inr [(Some ''b.eml'', completed), (Some ''a.eml'', completed)]"
    unfolding e2 by (rule st)
  have c3: "map (\<lambda>r. (col_id r, col_fileName r, col_tematica r, col_urls r))
       (rows (dbInstance (storeState (processFiles unreadableFirst (sampleApp twoFiles)))))
     = [(1, Some ''a.eml'', Some topicFailure, Some (JSON_stringify [])),
        (2, Some ''b.eml'', Some ''IA'', Some (JSON_stringify [''https://x.com/u/status/1'']))]"
    unfolding e3 by (rule tb)
  from c1 c2 c3 show ?thesis by (intro conjI)
qed

text \<open>
  C2, as stated, fails: in a batch of two files with no cancellation and no quota topic,
  in which every attempt for the first file fails without a sign of quota, \<open>saveToDb\<close> is
  called for the second file only, and \<open>getAllEmails\<close> returns one record after the batch.
\<close>

theorem generic_failure_is_not_stored:
  "concat (map persistedOf (batchEvents failureAtFirst (sampleApp twoFiles)))
     = [(1, ''b.eml'', completed)]
   \<and> map_sum id (map (\<lambda>e. (fileName e, status e)))
       (getAllEmails (storeState (processFiles failureAtFirst (sampleApp twoFiles))))
     = Inr [(Some ''b.eml'', completed)]
   \<and> fst (batchExit failureAtFirst (sampleApp twoFiles)) = Finished"
  by code_simp



end
